theory Spec2Isabelle
  imports
    Complex_Main
    "HOL-Library.Word"
    "HOL-Library.Signed_Division"
    "HOL-Library.Char_ord"
    "HOL-Library.List_Lexorder"
begin

section \<open>The search server of FirstYandexProject\<close>

text \<open>
  The repository holds two versions of one class \<open>SearchServer\<close>:
  \<^item> \<open>src/Project70/Source1.cpp\<close>, the validating version (it throws
    \<open>invalid_argument\<close> and \<open>out_of_range\<close>);
  \<^item> \<open>src/unnamed/part_000\<close>, the version without validation, whose
    \<open>AddDocument\<close> returns a \<open>bool\<close>.
  The definitions without suffix embed \<open>Source1.cpp\<close>; those that end in \<open>_p0\<close>
  embed \<open>part_000\<close>. Functions that are textually the same in both files
  (\<open>calculateTermFrequency\<close>, \<open>computeAverageRating\<close> up to the order of two
  statements) are embedded once. Of \<open>part_000\<close> only the member functions that change
  the server are embedded: its \<open>const\<close> member functions are those of \<open>Source1.cpp\<close>
  without the checks.

  Conventions of the embedding:
  \<^item> \<open>int\<close> document ids are HOL integers: the code only compares them;
  \<^item> \<open>int\<close> ratings are 32-bit words read as signed (\<open>sint\<close>), since the code adds
    and divides them;
  \<^item> \<open>double\<close> is the type \<open>real\<close>: arithmetic is exact, rounding is not part of
    the model;
  \<^item> \<open>std::string\<close> is \<open>string\<close>, a list of bytes, ordered bytewise
    (\<open>std::less<std::string>\<close> compares \<open>unsigned char\<close> values, and a proper
    prefix is smaller);
  \<^item> a member function that mutates the server returns the server after the call
    together with its outcome, so that a \<open>throw\<close> shows the state it leaves behind;
    a \<open>const\<close> member function returns \<open>error + result\<close>;
  \<^item> the trailing underscore of the C++ member names is dropped.
\<close>

subsection \<open>Containers of the standard library\<close>

text \<open>
  \<open>std::set<T>\<close> is the list of its elements in iteration order, which is strictly
  ascending. \<open>set_insert\<close> is \<open>std::set::insert\<close>: an element already present
  is not inserted again.
\<close>

fun set_insert :: "'a::linorder \<Rightarrow> 'a list \<Rightarrow> 'a list" where
  "set_insert x [] = [x]"
| "set_insert x (y # ys) =
     (if x < y then x # y # ys
      else if x = y then y # ys
      else y # set_insert x ys)"

text \<open>
  \<open>std::map<K, V>\<close> is the list of its entries in iteration order (ascending keys).
  \<open>map_of m k\<close> is \<open>find\<close>: \<open>count(k) == 0\<close> is \<open>map_of m k = None\<close>, and
  \<open>at(k)\<close> throws \<open>out_of_range\<close> in that case. \<open>map_put k v\<close> is the
  assignment \<open>m[k] = v\<close>, \<open>map_erase\<close> is \<open>erase(k)\<close>, \<open>map_emplace\<close> is
  \<open>emplace\<close>, which leaves an existing entry alone.
\<close>

type_synonym ('k, 'v) cmap = "('k \<times> 'v) list"

fun map_put :: "'k::linorder \<Rightarrow> 'v \<Rightarrow> ('k, 'v) cmap \<Rightarrow> ('k, 'v) cmap" where
  "map_put k v [] = [(k, v)]"
| "map_put k v ((a, b) # m) =
     (if k < a then (k, v) # (a, b) # m
      else if k = a then (k, v) # m
      else (a, b) # map_put k v m)"

definition map_erase :: "'k \<Rightarrow> ('k, 'v) cmap \<Rightarrow> ('k, 'v) cmap" where
  "map_erase k m = filter (\<lambda>e. fst e \<noteq> k) m"

definition map_emplace :: "'k::linorder \<Rightarrow> 'v \<Rightarrow> ('k, 'v) cmap \<Rightarrow> ('k, 'v) cmap" where
  "map_emplace k v m = (if map_of m k = None then map_put k v m else m)"

text \<open>
  \<open>std::sort(first, last, cmp)\<close>. The library is not part of the repository; the
  model is the insertion sort that both libstdc++ (\<open>__insertion_sort\<close>) and the
  Microsoft STL (\<open>_Insertion_sort_unchecked\<close>) run on a range below their
  partitioning threshold (16 and 32 elements): the next element goes to the front
  when \<open>cmp\<close> puts it before the first one, and otherwise moves left past every
  element that \<open>cmp\<close> puts it before. The prefix handled so far is kept reversed in
  \<open>unguarded_linear_insert\<close>, which scans it from its last element.
\<close>

fun unguarded_linear_insert :: "('a \<Rightarrow> 'a \<Rightarrow> bool) \<Rightarrow> 'a \<Rightarrow> 'a list \<Rightarrow> 'a list" where
  "unguarded_linear_insert cmp val [] = [val]"
| "unguarded_linear_insert cmp val (x # rev_prefix) =
     (if cmp val x then x # unguarded_linear_insert cmp val rev_prefix
      else val # x # rev_prefix)"

definition insertion_step :: "('a \<Rightarrow> 'a \<Rightarrow> bool) \<Rightarrow> 'a list \<Rightarrow> 'a \<Rightarrow> 'a list" where
  "insertion_step cmp prefix val =
     (case prefix of
        [] \<Rightarrow> [val]
      | first # _ \<Rightarrow>
          if cmp val first then val # prefix
          else rev (unguarded_linear_insert cmp val (rev prefix)))"

definition std_sort :: "('a \<Rightarrow> 'a \<Rightarrow> bool) \<Rightarrow> 'a list \<Rightarrow> 'a list" where
  "std_sort cmp xs = foldl (insertion_step cmp) [] xs"

subsection \<open>Data model\<close>

datatype DocumentStatus = ACTUAL | IRRELEVANT | BANNED | REMOVED

datatype error = invalid_argument | out_of_range

text \<open>
  \<open>struct Document {id, relevance, rating}\<close>; the fields are \<open>doc_id\<close>,
  \<open>relevance\<close> and \<open>doc_rating\<close> here, since \<open>id\<close> is a HOL constant and
  \<open>rating\<close> is a field of \<open>DocumentData\<close> as well.
\<close>

record Document =
  doc_id :: int
  relevance :: real
  doc_rating :: "32 word"

record DocumentData =
  rating :: "32 word"
  status :: DocumentStatus
  words :: "string list"

record Query =
  plus_words :: "string list"
  minus_words :: "string list"

record QueryWord =
  data :: string
  is_minus :: bool
  is_stop :: bool

record SearchServer =
  word_to_document_freqs :: "(string, (int, real) cmap) cmap"
  documents :: "(int, DocumentData) cmap"
  stopWords :: "string set"
  document_ids :: "int list"

definition MAX_RESULT_DOCUMENT_COUNT :: nat where
  "MAX_RESULT_DOCUMENT_COUNT = 5"

definition EPSILON :: real where
  "EPSILON = 1 / 1000000"

definition empty_server :: SearchServer where
  "empty_server =
     \<lparr>word_to_document_freqs = [], documents = [], stopWords = {}, document_ids = []\<rparr>"

definition empty_query :: Query where
  "empty_query = \<lparr>plus_words = [], minus_words = []\<rparr>"

subsection \<open>Tokenizer (Source1.cpp)\<close>

text \<open>
  \<open>split\<close> with its default delimiters \<open>" \\r\\n\\t\\v"\<close>: \<open>find_first_not_of\<close> skips
  delimiters, \<open>find_first_of\<close> ends the token, and the loop goes on behind it.
\<close>

definition is_delim :: "char \<Rightarrow> bool" where
  "is_delim c = (c \<in> {CHR '' '', CHR 0x0D, CHR 0x0A, CHR 0x09, CHR 0x0B})"

function split :: "string \<Rightarrow> string list" where
  "split s =
     (case dropWhile is_delim s of
        [] \<Rightarrow> []
      | c # cs \<Rightarrow>
          takeWhile (\<lambda>x. \<not> is_delim x) (c # cs)
            # split (dropWhile (\<lambda>x. \<not> is_delim x) (c # cs)))"
  by pat_completeness auto
termination
proof (relation "measure length")
  show "wf (measure length)" by simp
next
  fix s :: string and c cs
  assume a: "dropWhile is_delim s = c # cs"
  have nd: "\<not> is_delim c"
    using a by (metis hd_dropWhile list.sel(1) list.distinct(1))
  have "length (dropWhile (\<lambda>x. \<not> is_delim x) (c # cs)) \<le> length cs"
    using nd by (simp add: length_dropWhile_le)
  also have "length cs < length (dropWhile is_delim s)"
    using a by simp
  also have "\<dots> \<le> length s"
    by (rule length_dropWhile_le)
  finally show "(dropWhile (\<lambda>x. \<not> is_delim x) (c # cs), s) \<in> measure length"
    by simp
qed

declare split.simps [simp del]

text \<open>
  \<open>isValidChar\<close>: \<open>char\<close> is signed on the platforms of the project, so
  \<open>character < 0\<close> holds for the bytes from 128; \<open>iscntrl\<close>, \<open>isalpha\<close> and
  \<open>isgraph\<close> are those of the C locale.
\<close>

definition iscntrl :: "char \<Rightarrow> bool" where
  "iscntrl c = ((of_char c :: nat) < 32 \<or> (of_char c :: nat) = 127)"

definition isalpha :: "char \<Rightarrow> bool" where
  "isalpha c =
     ((65 \<le> (of_char c :: nat) \<and> (of_char c :: nat) \<le> 90) \<or>
      (97 \<le> (of_char c :: nat) \<and> (of_char c :: nat) \<le> 122))"

definition isgraph :: "char \<Rightarrow> bool" where
  "isgraph c = (33 \<le> (of_char c :: nat) \<and> (of_char c :: nat) \<le> 126)"

definition isValidChar :: "char \<Rightarrow> bool \<Rightarrow> bool" where
  "isValidChar character isFirst =
     (if 128 \<le> (of_char character :: nat) then True
      else if iscntrl character then False
      else if isFirst \<and> isalpha character then True
      else if \<not> isFirst \<and> isgraph character then True
      else False)"

fun isValidWord_loop :: "nat \<Rightarrow> string \<Rightarrow> bool" where
  "isValidWord_loop i [] = True"
| "isValidWord_loop i (c # cs) =
     (if \<not> isValidChar c (i = 0) then False else isValidWord_loop (i + 1) cs)"

definition isValidWord :: "string \<Rightarrow> bool" where
  "isValidWord word = (if word = [] then False else isValidWord_loop 0 word)"

definition isStopWord :: "SearchServer \<Rightarrow> string \<Rightarrow> bool" where
  "isStopWord srv word = (word \<in> stopWords srv)"

text \<open>
  \<open>splitIntoWordsNoStop(text, words)\<close> appends to its out-parameter and returns
  whether every token was valid; it stops at the first invalid token.
\<close>

fun splitIntoWordsNoStop_loop ::
  "SearchServer \<Rightarrow> string list \<Rightarrow> string list \<Rightarrow> bool \<times> string list" where
  "splitIntoWordsNoStop_loop srv [] ws = (True, ws)"
| "splitIntoWordsNoStop_loop srv (word # tempWords) ws =
     (if \<not> isValidWord word then (False, ws)
      else if \<not> isStopWord srv word then splitIntoWordsNoStop_loop srv tempWords (ws @ [word])
      else splitIntoWordsNoStop_loop srv tempWords ws)"

definition splitIntoWordsNoStop ::
  "SearchServer \<Rightarrow> string \<Rightarrow> string list \<Rightarrow> bool \<times> string list" where
  "splitIntoWordsNoStop srv text ws = splitIntoWordsNoStop_loop srv (split text) ws"

subsection \<open>Index (Source1.cpp)\<close>

text \<open>
  Integer division of C++ truncates toward zero; \<open>accumulate\<close> adds in \<open>int\<close>,
  where the model wraps around (the C++ standard leaves signed overflow undefined).
  \<open>static_cast<int>(ratings.size())\<close> is the length as a 32-bit word.
\<close>

definition int_div :: "32 word \<Rightarrow> 32 word \<Rightarrow> 32 word" where
  "int_div a b = word_of_int (sint a sdiv sint b)"

definition accumulate :: "32 word list \<Rightarrow> 32 word \<Rightarrow> 32 word" where
  "accumulate xs init = foldl (+) init xs"

definition computeAverageRating :: "32 word list \<Rightarrow> 32 word" where
  "computeAverageRating ratings =
     (let ratingsCount = (of_nat (length ratings) :: 32 word) in
      if ratingsCount = 0 then 0
      else let rating_sum = accumulate ratings 0
           in int_div rating_sum (of_nat (length ratings)))"

text \<open>
  One round of the loop of \<open>calculateTermFrequency\<close>. \<open>operator[]\<close> on the outer
  map creates an empty inner map for a new word; the entry of the document is
  created with 0.0 when it is missing, and \<open>inv_word_count\<close> is added to it.
\<close>

definition add_occurrence ::
  "real \<Rightarrow> int \<Rightarrow> (string, (int, real) cmap) cmap \<Rightarrow> string \<Rightarrow> (string, (int, real) cmap) cmap" where
  "add_occurrence inv_word_count documentId idx word =
     (let freqs = (case map_of idx word of None \<Rightarrow> [] | Some m \<Rightarrow> m);
          freqs0 = (if map_of freqs documentId = None then map_put documentId 0 freqs else freqs);
          tf = (case map_of freqs0 documentId of None \<Rightarrow> 0 | Some x \<Rightarrow> x)
      in map_put word (map_put documentId (tf + inv_word_count) freqs0) idx)"

text \<open>
  \<open>documents_[documentId]\<close> would create a default \<open>DocumentData\<close> for an unknown
  id; \<open>AddDocument\<close> calls the function right after it stored the document.
\<close>

definition default_DocumentData :: DocumentData where
  "default_DocumentData = \<lparr>rating = 0, status = ACTUAL, words = []\<rparr>"

definition calculateTermFrequency ::
  "(int, DocumentData) cmap \<Rightarrow> (string, (int, real) cmap) cmap \<Rightarrow> int \<Rightarrow>
     (int, DocumentData) cmap \<times> (string, (int, real) cmap) cmap" where
  "calculateTermFrequency docs idx documentId =
     (let docs1 = map_emplace documentId default_DocumentData docs;
          ws = (case map_of docs1 documentId of None \<Rightarrow> [] | Some d \<Rightarrow> words d);
          inv_word_count = 1 / real (length ws)
      in (docs1, foldl (add_occurrence inv_word_count documentId) idx ws))"

text \<open>
  \<open>SetStopWords(const StringContainer&)\<close> stores the words one by one and throws at
  the first invalid one; \<open>SetStopWords(const string&)\<close> splits the text into a
  \<open>set<string>\<close> first.
\<close>

fun SetStopWords :: "SearchServer \<Rightarrow> string list \<Rightarrow> error option \<times> SearchServer" where
  "SetStopWords srv [] = (None, srv)"
| "SetStopWords srv (stopWord # rest) =
     (if \<not> isValidWord stopWord then (Some invalid_argument, srv)
      else SetStopWords (srv\<lparr>stopWords := insert stopWord (stopWords srv)\<rparr>) rest)"

definition SetStopWordsText :: "SearchServer \<Rightarrow> string \<Rightarrow> error option \<times> SearchServer" where
  "SetStopWordsText srv stopWordsText =
     SetStopWords srv (foldl (\<lambda>temp w. set_insert w temp) [] (split stopWordsText))"

definition AddDocument ::
  "SearchServer \<Rightarrow> int \<Rightarrow> string \<Rightarrow> DocumentStatus \<Rightarrow> 32 word list \<Rightarrow>
     error option \<times> SearchServer" where
  "AddDocument srv documentId document st ratings =
     (if documentId < 0 \<or> map_of (documents srv) documentId \<noteq> None
      then (Some invalid_argument, srv)
      else case splitIntoWordsNoStop srv document [] of
        (False, _) \<Rightarrow> (Some invalid_argument, srv)
      | (True, ws) \<Rightarrow>
          let docs1 = map_emplace documentId
                        \<lparr>rating = computeAverageRating ratings, status = st, words = ws\<rparr>
                        (documents srv);
              ids1 = document_ids srv @ [documentId];
              (docs2, idx2) = calculateTermFrequency docs1 (word_to_document_freqs srv) documentId
          in (None, srv\<lparr>word_to_document_freqs := idx2, documents := docs2,
                         document_ids := ids1\<rparr>))"

definition GetDocumentCount :: "SearchServer \<Rightarrow> nat" where
  "GetDocumentCount srv = length (documents srv)"

definition GetDocumentId :: "SearchServer \<Rightarrow> int \<Rightarrow> error + int" where
  "GetDocumentId srv index =
     (if 0 \<le> index \<and> index < int (GetDocumentCount srv)
      then Inr (document_ids srv ! nat index)
      else Inl out_of_range)"

subsection \<open>Query parser (Source1.cpp)\<close>

definition parseQueryWord :: "SearchServer \<Rightarrow> string \<Rightarrow> QueryWord option" where
  "parseQueryWord srv text =
     (if text = [] then None
      else let minus = (hd text = CHR ''-'');
               text1 = (if minus then tl text else text)
           in if \<not> isValidWord text1 then None
              else Some \<lparr>data = text1, is_minus = minus, is_stop = isStopWord srv text1\<rparr>)"

fun parseQuery_loop :: "SearchServer \<Rightarrow> string list \<Rightarrow> Query \<Rightarrow> bool \<times> Query" where
  "parseQuery_loop srv [] query = (True, query)"
| "parseQuery_loop srv (word # ws) query =
     (case parseQueryWord srv word of
        None \<Rightarrow> (False, query)
      | Some query_word \<Rightarrow>
          if \<not> is_stop query_word then
            if is_minus query_word
            then parseQuery_loop srv ws
                   (query\<lparr>minus_words := set_insert (data query_word) (minus_words query)\<rparr>)
            else parseQuery_loop srv ws
                   (query\<lparr>plus_words := set_insert (data query_word) (plus_words query)\<rparr>)
          else parseQuery_loop srv ws query)"

definition parseQuery :: "SearchServer \<Rightarrow> string \<Rightarrow> Query \<Rightarrow> bool \<times> Query" where
  "parseQuery srv text query = parseQuery_loop srv (split text) query"

subsection \<open>Ranking (Source1.cpp)\<close>

type_synonym DocumentPredicate = "int \<Rightarrow> DocumentStatus \<Rightarrow> 32 word \<Rightarrow> bool"

definition computeWordInverseDocumentFreq :: "SearchServer \<Rightarrow> string \<Rightarrow> error + real" where
  "computeWordInverseDocumentFreq srv word =
     (case map_of (word_to_document_freqs srv) word of
        None \<Rightarrow> Inl out_of_range
      | Some freqs \<Rightarrow> Inr (ln (real (GetDocumentCount srv) * 1 / real (length freqs))))"

text \<open>
  The inner loop of \<open>findAllDocuments\<close> over the entries of one word;
  \<open>document_to_relevance[document_id] += \<dots>\<close> starts a missing entry at 0.0.
\<close>

fun add_relevance ::
  "(int, DocumentData) cmap \<Rightarrow> DocumentPredicate \<Rightarrow> real \<Rightarrow> (int, real) cmap \<Rightarrow>
     (int, real) cmap \<Rightarrow> error + (int, real) cmap" where
  "add_relevance docs document_predicate inverse_document_freq [] rel = Inr rel"
| "add_relevance docs document_predicate inverse_document_freq ((document_id, term_freq) # freqs) rel =
     (case map_of docs document_id of
        None \<Rightarrow> Inl out_of_range
      | Some document_data \<Rightarrow>
          add_relevance docs document_predicate inverse_document_freq freqs
            (if document_predicate document_id (status document_data) (rating document_data)
             then map_put document_id
                    ((case map_of rel document_id of None \<Rightarrow> 0 | Some r \<Rightarrow> r)
                       + term_freq * inverse_document_freq) rel
             else rel))"

fun plus_loop ::
  "SearchServer \<Rightarrow> DocumentPredicate \<Rightarrow> string list \<Rightarrow> (int, real) cmap \<Rightarrow>
     error + (int, real) cmap" where
  "plus_loop srv document_predicate [] rel = Inr rel"
| "plus_loop srv document_predicate (word # ws) rel =
     (case map_of (word_to_document_freqs srv) word of
        None \<Rightarrow> plus_loop srv document_predicate ws rel
      | Some freqs \<Rightarrow>
          (case computeWordInverseDocumentFreq srv word of
             Inl e \<Rightarrow> Inl e
           | Inr inverse_document_freq \<Rightarrow>
               (case add_relevance (documents srv) document_predicate inverse_document_freq
                       freqs rel of
                  Inl e \<Rightarrow> Inl e
                | Inr rel1 \<Rightarrow> plus_loop srv document_predicate ws rel1)))"

fun minus_loop ::
  "SearchServer \<Rightarrow> string list \<Rightarrow> (int, real) cmap \<Rightarrow> (int, real) cmap" where
  "minus_loop srv [] rel = rel"
| "minus_loop srv (word # ws) rel =
     (case map_of (word_to_document_freqs srv) word of
        None \<Rightarrow> minus_loop srv ws rel
      | Some freqs \<Rightarrow> minus_loop srv ws (foldl (\<lambda>r e. map_erase (fst e) r) rel freqs))"

fun collect_documents ::
  "(int, DocumentData) cmap \<Rightarrow> (int, real) cmap \<Rightarrow> error + Document list" where
  "collect_documents docs [] = Inr []"
| "collect_documents docs ((document_id, r) # rel) =
     (case map_of docs document_id of
        None \<Rightarrow> Inl out_of_range
      | Some document_data \<Rightarrow>
          (case collect_documents docs rel of
             Inl e \<Rightarrow> Inl e
           | Inr matched \<Rightarrow>
               Inr (\<lparr>doc_id = document_id, relevance = r,
                     doc_rating = rating document_data\<rparr> # matched)))"

definition findAllDocuments ::
  "SearchServer \<Rightarrow> Query \<Rightarrow> DocumentPredicate \<Rightarrow> error + Document list" where
  "findAllDocuments srv query document_predicate =
     (case plus_loop srv document_predicate (plus_words query) [] of
        Inl e \<Rightarrow> Inl e
      | Inr rel \<Rightarrow> collect_documents (documents srv) (minus_loop srv (minus_words query) rel))"

definition relevance_order :: "Document \<Rightarrow> Document \<Rightarrow> bool" where
  "relevance_order lhs rhs =
     (relevance lhs > relevance rhs \<or>
      (\<bar>relevance lhs - relevance rhs\<bar> < EPSILON \<and> sint (doc_rating lhs) > sint (doc_rating rhs)))"

definition FindTopDocuments ::
  "SearchServer \<Rightarrow> string \<Rightarrow> DocumentPredicate \<Rightarrow> error + Document list" where
  "FindTopDocuments srv rawQuery document_predicate =
     (case parseQuery srv rawQuery empty_query of
        (False, _) \<Rightarrow> Inl invalid_argument
      | (True, query) \<Rightarrow>
          (case findAllDocuments srv query document_predicate of
             Inl e \<Rightarrow> Inl e
           | Inr found \<Rightarrow>
               let matched_documents = std_sort relevance_order found
               in Inr (if length matched_documents > MAX_RESULT_DOCUMENT_COUNT
                       then take MAX_RESULT_DOCUMENT_COUNT matched_documents
                       else matched_documents)))"

definition FindTopDocuments_status ::
  "SearchServer \<Rightarrow> string \<Rightarrow> DocumentStatus \<Rightarrow> error + Document list" where
  "FindTopDocuments_status srv rawQuery st =
     FindTopDocuments srv rawQuery (\<lambda>document_id document_status r. document_status = st)"

definition FindTopDocuments_actual :: "SearchServer \<Rightarrow> string \<Rightarrow> error + Document list" where
  "FindTopDocuments_actual srv rawQuery = FindTopDocuments_status srv rawQuery ACTUAL"

subsection \<open>Matching (Source1.cpp)\<close>

definition indexes :: "SearchServer \<Rightarrow> string \<Rightarrow> int \<Rightarrow> bool" where
  "indexes srv word documentId =
     (case map_of (word_to_document_freqs srv) word of
        None \<Rightarrow> False
      | Some freqs \<Rightarrow> map_of freqs documentId \<noteq> None)"

fun match_plus :: "SearchServer \<Rightarrow> int \<Rightarrow> string list \<Rightarrow> string list \<Rightarrow> string list" where
  "match_plus srv documentId [] matched_words = matched_words"
| "match_plus srv documentId (word # ws) matched_words =
     (if indexes srv word documentId
      then match_plus srv documentId ws (matched_words @ [word])
      else match_plus srv documentId ws matched_words)"

fun match_minus :: "SearchServer \<Rightarrow> int \<Rightarrow> string list \<Rightarrow> string list \<Rightarrow> string list" where
  "match_minus srv documentId [] matched_words = matched_words"
| "match_minus srv documentId (word # ws) matched_words =
     (if indexes srv word documentId then []
      else match_minus srv documentId ws matched_words)"

definition MatchDocument ::
  "SearchServer \<Rightarrow> string \<Rightarrow> int \<Rightarrow> error + (string list \<times> DocumentStatus)" where
  "MatchDocument srv rawQuery documentId =
     (case parseQuery srv rawQuery empty_query of
        (False, _) \<Rightarrow> Inl invalid_argument
      | (True, query) \<Rightarrow>
          let matched_words =
                match_minus srv documentId (minus_words query)
                  (match_plus srv documentId (plus_words query) [])
          in (case map_of (documents srv) documentId of
                None \<Rightarrow> Inl out_of_range
              | Some document_data \<Rightarrow> Inr (matched_words, status document_data)))"

subsection \<open>The version without validation (part_000)\<close>

text \<open>
  \<open>SplitIntoWords\<close> cuts at every single space and pushes the last word even when it
  is empty.
\<close>

fun SplitIntoWords_loop :: "string \<Rightarrow> string \<Rightarrow> string list \<Rightarrow> string list" where
  "SplitIntoWords_loop [] word ws = ws @ [word]"
| "SplitIntoWords_loop (c # text) word ws =
     (if c = CHR '' '' then SplitIntoWords_loop text [] (ws @ [word])
      else SplitIntoWords_loop text (word @ [c]) ws)"

definition SplitIntoWords :: "string \<Rightarrow> string list" where
  "SplitIntoWords text = SplitIntoWords_loop text [] []"

record SearchServer_p0 =
  stop_words_p0 :: "string set"
  word_to_document_freqs_p0 :: "(string, (int, real) cmap) cmap"
  documents_p0 :: "(int, DocumentData) cmap"

definition empty_server_p0 :: SearchServer_p0 where
  "empty_server_p0 =
     \<lparr>stop_words_p0 = {}, word_to_document_freqs_p0 = [], documents_p0 = []\<rparr>"

definition SetStopWords_p0 :: "SearchServer_p0 \<Rightarrow> string \<Rightarrow> SearchServer_p0" where
  "SetStopWords_p0 srv text =
     srv\<lparr>stop_words_p0 := foldl (\<lambda>s word. insert word s) (stop_words_p0 srv) (SplitIntoWords text)\<rparr>"

definition splitIntoWordsNoStop_p0 :: "SearchServer_p0 \<Rightarrow> string \<Rightarrow> string list" where
  "splitIntoWordsNoStop_p0 srv text =
     filter (\<lambda>word. word \<notin> stop_words_p0 srv) (SplitIntoWords text)"

text \<open>
  \<open>addDocumentData\<close> of \<open>part_000\<close> appends the new words to a document that exists
  already and reports \<open>false\<close>.
\<close>

definition addDocumentData_p0 ::
  "(int, DocumentData) cmap \<Rightarrow> int \<Rightarrow> string list \<Rightarrow> DocumentStatus \<Rightarrow> 32 word list \<Rightarrow>
     bool \<times> (int, DocumentData) cmap" where
  "addDocumentData_p0 docs document_id ws st ratings =
     (case map_of docs document_id of
        None \<Rightarrow>
          (True, map_emplace document_id
                   \<lparr>rating = computeAverageRating ratings, status = st, words = ws\<rparr> docs)
      | Some d \<Rightarrow> (False, map_put document_id (d\<lparr>words := words d @ ws\<rparr>) docs))"

text \<open>
  \<open>deleteAllDocumentWords\<close>: the document is erased from the entry of every word,
  the words left without a document are collected and then erased.
\<close>

definition deleteAllDocumentWords ::
  "(string, (int, real) cmap) cmap \<Rightarrow> int \<Rightarrow> (string, (int, real) cmap) cmap" where
  "deleteAllDocumentWords idx documentId =
     (let idx1 = map (\<lambda>(word, docFreq). (word, map_erase documentId docFreq)) idx;
          emptyWords = map fst (filter (\<lambda>(word, docFreq). docFreq = []) idx1)
      in foldl (\<lambda>i word. map_erase word i) idx1 emptyWords)"

definition AddDocument_p0 ::
  "SearchServer_p0 \<Rightarrow> int \<Rightarrow> string \<Rightarrow> DocumentStatus \<Rightarrow> 32 word list \<Rightarrow>
     bool \<times> SearchServer_p0" where
  "AddDocument_p0 srv document_id document st ratings =
     (if document = [] then (False, srv)
      else
        let (added, docs1) =
              addDocumentData_p0 (documents_p0 srv) document_id
                (splitIntoWordsNoStop_p0 srv document) st ratings;
            idx1 = (if \<not> added
                    then deleteAllDocumentWords (word_to_document_freqs_p0 srv) document_id
                    else word_to_document_freqs_p0 srv);
            (docs2, idx2) = calculateTermFrequency docs1 idx1 document_id
        in (True, srv\<lparr>word_to_document_freqs_p0 := idx2, documents_p0 := docs2\<rparr>))"

subsection \<open>Reachable servers and the invariant of the term index\<close>

text \<open>
  The servers a program can hold: a default-constructed one, changed by the member
  functions that are not \<open>const\<close>. A call that throws leaves the server that the
  model returns with the error. The \<open>const\<close> member functions change nothing and do
  not occur.
\<close>

inductive reachable :: "SearchServer \<Rightarrow> bool" where
  reachable_empty: "reachable empty_server"
| reachable_SetStopWords: "reachable srv \<Longrightarrow> reachable (snd (SetStopWords srv ws))"
| reachable_SetStopWordsText:
    "reachable srv \<Longrightarrow> reachable (snd (SetStopWordsText srv stopWordsText))"
| reachable_AddDocument:
    "reachable srv \<Longrightarrow> reachable (snd (AddDocument srv documentId document st ratings))"

inductive reachable_p0 :: "SearchServer_p0 \<Rightarrow> bool" where
  reachable_p0_empty: "reachable_p0 empty_server_p0"
| reachable_p0_SetStopWords: "reachable_p0 srv \<Longrightarrow> reachable_p0 (SetStopWords_p0 srv text)"
| reachable_p0_AddDocument:
    "reachable_p0 srv \<Longrightarrow> reachable_p0 (snd (AddDocument_p0 srv document_id document st ratings))"

text \<open>No word of the term index is left with an empty map of documents.\<close>

definition no_empty_entry :: "(string, (int, real) cmap) cmap \<Rightarrow> bool" where
  "no_empty_entry idx = list_all (\<lambda>e. snd e \<noteq> []) idx"

subsection \<open>Relevance as the specification words it\<close>

text \<open>
  These definitions follow the words of the specification, not the code: the term
  frequency is the number of occurrences of the term among the stored (non-stop) words
  of the document, divided by the number of these words; the relevance of a document is
  the sum over the plus words that occur in it of the term frequency times the
  logarithm of the number of documents over the number of documents with the term.
\<close>

definition termFrequency :: "string list \<Rightarrow> string \<Rightarrow> real" where
  "termFrequency ws term = real (count_list ws term) / real (length ws)"

definition totalDocumentCount :: "SearchServer \<Rightarrow> nat" where
  "totalDocumentCount srv = length (documents srv)"

definition docsContainingTerm :: "SearchServer \<Rightarrow> string \<Rightarrow> nat" where
  "docsContainingTerm srv term =
     length (filter (\<lambda>e. term \<in> set (words (snd e))) (documents srv))"

definition spec_relevance :: "SearchServer \<Rightarrow> Query \<Rightarrow> DocumentData \<Rightarrow> real" where
  "spec_relevance srv query d =
     (\<Sum>term \<leftarrow> filter (\<lambda>t. t \<in> set (words d)) (plus_words query).
        termFrequency (words d) term
          * ln (real (totalDocumentCount srv) / real (docsContainingTerm srv term)))"

text \<open>
  The order of the result, in the words of the specification: \<open>claimed_order A B\<close> is
  what must hold of an entry \<open>A\<close> anywhere before an entry \<open>B\<close>. \<open>no_near_ties\<close> says
  of a list of documents that no two relevances differ by less than \<open>EPSILON\<close> unless
  they are equal.
\<close>

definition claimed_order :: "Document \<Rightarrow> Document \<Rightarrow> bool" where
  "claimed_order A B =
     (relevance A > relevance B \<or>
      (\<bar>relevance A - relevance B\<bar> < EPSILON \<and> sint (doc_rating A) \<ge> sint (doc_rating B)))"

definition no_near_ties :: "Document list \<Rightarrow> bool" where
  "no_near_ties ds =
     (\<forall>a \<in> set ds. \<forall>b \<in> set ds.
        relevance a = relevance b \<or> EPSILON \<le> \<bar>relevance a - relevance b\<bar>)"

text \<open>
  What ties the term index to the stored documents: \<open>tf_lookup\<close> reads the entry of a
  term and a document; \<open>index_consistent\<close> says that the keys of every map ascend
  strictly and that the entry of a term and a document is there exactly when the term is
  one of the stored words of the document, where it is the term frequency.
\<close>

definition tf_lookup :: "(string, (int, real) cmap) cmap \<Rightarrow> string \<Rightarrow> int \<Rightarrow> real option" where
  "tf_lookup idx term d = (case map_of idx term of None \<Rightarrow> None | Some freqs \<Rightarrow> map_of freqs d)"

definition index_consistent :: "SearchServer \<Rightarrow> bool" where
  "index_consistent srv \<longleftrightarrow>
     sorted_wrt (<) (map fst (documents srv)) \<and>
     (\<forall>term freqs. map_of (word_to_document_freqs srv) term = Some freqs
        \<longrightarrow> sorted_wrt (<) (map fst freqs)) \<and>
     (\<forall>term d. tf_lookup (word_to_document_freqs srv) term d =
        (case map_of (documents srv) d of
           None \<Rightarrow> None
         | Some dd \<Rightarrow>
             if term \<in> set (words dd) then Some (termFrequency (words dd) term) else None))"

text \<open>
  Two readings of the loops of \<open>findAllDocuments\<close>, used to state what they compute:
  whether the predicate accepts a stored document, and what one plus word adds to the
  relevance of one document.
\<close>

definition document_passes ::
  "(int, DocumentData) cmap \<Rightarrow> DocumentPredicate \<Rightarrow> int \<Rightarrow> bool" where
  "document_passes docs document_predicate d =
     (case map_of docs d of
        None \<Rightarrow> False
      | Some dd \<Rightarrow> document_predicate d (status dd) (rating dd))"

definition contribution :: "SearchServer \<Rightarrow> string \<Rightarrow> int \<Rightarrow> real" where
  "contribution srv word d =
     (case map_of (word_to_document_freqs srv) word of
        None \<Rightarrow> 0
      | Some freqs \<Rightarrow>
          (case map_of freqs d of
             None \<Rightarrow> 0
           | Some term_freq \<Rightarrow>
               term_freq * ln (real (GetDocumentCount srv) * 1 / real (length freqs))))"

subsection \<open>Example servers\<close>

text \<open>The server of \<open>TestAddDocument\<close> in \<open>Source1.cpp\<close>.\<close>

definition three_docs :: SearchServer where
  "three_docs =
     snd (AddDocument
       (snd (AddDocument
         (snd (AddDocument
           (snd (SetStopWordsText empty_server ''and in on the''))
           2 ''cat in the city'' ACTUAL [3, 1, - 1]))
         7 ''porco rosso the crimson pig on a plane'' ACTUAL [2, 5, 6]))
       9 ''black cat kyle'' ACTUAL [- 3, 2, 8])"

text \<open>A server of \<open>part_000\<close> to which document 1 was added twice.\<close>

definition readded_p0 :: SearchServer_p0 where
  "readded_p0 =
     snd (AddDocument_p0 (snd (AddDocument_p0 empty_server_p0 1 ''cat dog'' ACTUAL [1]))
            1 ''cat'' ACTUAL [2])"


text \<open>Six documents with the one word \<open>cat\<close>, ids 0 to 5, no stop words.\<close>

definition six_cats :: SearchServer where
  "six_cats =
     foldl (\<lambda>srv i. snd (AddDocument srv i ''cat'' ACTUAL [1])) empty_server [0, 1, 2, 3, 4, 5]"

text \<open>
  Three documents with one \<open>a\<close> among 600, 601 and 602 words, and a fourth document
  without \<open>a\<close>: \<open>long_doc n\<close> is \<open>a\<close> followed by \<open>n\<close> times \<open>b\<close>. The document
  with the most words has the highest rating.
\<close>

definition long_doc :: "nat \<Rightarrow> string" where
  "long_doc n = ''a'' @ concat (replicate n '' b'')"

definition near_ties :: SearchServer where
  "near_ties =
     snd (AddDocument
       (snd (AddDocument
         (snd (AddDocument
           (snd (AddDocument empty_server 0 (long_doc 599) ACTUAL [1]))
           1 (long_doc 600) ACTUAL [2]))
         2 (long_doc 601) ACTUAL [3]))
       3 ''c'' ACTUAL [])"

section \<open>Evaluation on concrete inputs\<close>

text \<open>
  The definitions to unfold when a function is run on a concrete input, and the example
  servers of the tests written out.
\<close>

lemmas tokenizer_defs =
  split.simps is_delim_def isValidWord_def isValidChar_def iscntrl_def isalpha_def isgraph_def
  isStopWord_def

lemmas index_defs =
  AddDocument_def empty_server_def SetStopWordsText_def splitIntoWordsNoStop_def map_emplace_def
  calculateTermFrequency_def add_occurrence_def Let_def

lemmas query_defs =
  FindTopDocuments_def parseQuery_def parseQueryWord_def empty_query_def findAllDocuments_def
  computeWordInverseDocumentFreq_def GetDocumentCount_def std_sort_def insertion_step_def
  relevance_order_def EPSILON_def MAX_RESULT_DOCUMENT_COUNT_def map_erase_def

lemma computeAverageRating_1: "computeAverageRating [1] = 1"
  by (simp add: computeAverageRating_def accumulate_def int_div_def)

lemma six_cats_eq:
  "six_cats =
     \<lparr>word_to_document_freqs = [(''cat'', [(0, 1), (1, 1), (2, 1), (3, 1), (4, 1), (5, 1)])],
      documents =
        map (\<lambda>i. (i, \<lparr>rating = 1, status = ACTUAL, words = [''cat'']\<rparr>)) [0, 1, 2, 3, 4, 5],
      stopWords = {}, document_ids = [0, 1, 2, 3, 4, 5]\<rparr>"
  by (simp add: six_cats_def tokenizer_defs index_defs computeAverageRating_1)

lemma three_docs_ratings:
  "computeAverageRating [3, 1, - 1] = 1" "computeAverageRating [2, 5, 6] = 4"
  "computeAverageRating [- 3, 2, 8] = 2"
  by (simp_all add: computeAverageRating_def accumulate_def int_div_def signed_divide_int_def)

lemma three_docs_eq:
  "three_docs =
     \<lparr>word_to_document_freqs =
        [(''a'', [(7, 1 / 6)]), (''black'', [(9, 1 / 3)]), (''cat'', [(2, 1 / 2), (9, 1 / 3)]),
         (''city'', [(2, 1 / 2)]), (''crimson'', [(7, 1 / 6)]), (''kyle'', [(9, 1 / 3)]),
         (''pig'', [(7, 1 / 6)]), (''plane'', [(7, 1 / 6)]), (''porco'', [(7, 1 / 6)]),
         (''rosso'', [(7, 1 / 6)])],
      documents =
        [(2, \<lparr>rating = 1, status = ACTUAL, words = [''cat'', ''city'']\<rparr>),
         (7, \<lparr>rating = 4, status = ACTUAL,
              words = [''porco'', ''rosso'', ''crimson'', ''pig'', ''a'', ''plane'']\<rparr>),
         (9, \<lparr>rating = 2, status = ACTUAL, words = [''black'', ''cat'', ''kyle'']\<rparr>)],
      stopWords = {''the'', ''on'', ''in'', ''and''},
      document_ids = [2, 7, 9]\<rparr>"
  by (simp add: three_docs_def tokenizer_defs index_defs three_docs_ratings)

lemma three_docs_query:
  "parseQuery three_docs ''cat -black'' empty_query
     = (True, \<lparr>plus_words = [''cat''], minus_words = [''black'']\<rparr>)"
  unfolding three_docs_eq by (simp add: query_defs tokenizer_defs)



section \<open>Lemmas on the containers\<close>

text \<open>
  The order of strings is the one of \<open>std::string\<close>: bytes compare as unsigned numbers,
  and a proper prefix comes first.
\<close>

lemma string_order_examples:
  "''Zebra'' < ''apple''" "''cat'' < ''cats''" "''z'' < [CHR 0xD0, CHR 0xBA]"
  "\<not> ''cat'' < ''cat''"
  by simp_all

lemma set_set_insert: "set (set_insert x xs) = insert x (set xs)"
  by (induction xs) auto

lemma sorted_set_insert:
  "sorted_wrt (<) xs \<Longrightarrow> sorted_wrt (<) (set_insert x xs)"
  by (induction xs) (auto simp: set_set_insert)

lemma map_of_map_put: "map_of (map_put k v m) = (map_of m)(k \<mapsto> v)"
  by (induction m) auto

lemma keys_map_put: "fst ` set (map_put k v m) = insert k (fst ` set m)"
proof -
  have "dom (map_of (map_put k v m)) = insert k (dom (map_of m))"
    by (simp add: map_of_map_put)
  then show ?thesis by (simp add: dom_map_of_conv_image_fst)
qed

lemma sorted_map_put:
  "sorted_wrt (<) (map fst m) \<Longrightarrow> sorted_wrt (<) (map fst (map_put k v m))"
proof (induction m)
  case Nil
  then show ?case by simp
next
  case (Cons e m)
  obtain a b where e: "e = (a, b)" by (cases e)
  have "\<forall>x \<in> fst ` set (map_put k v m). a < x" if "a < k"
    using Cons.prems that by (auto simp: keys_map_put e)
  then show ?case using Cons by (auto simp: e)
qed


lemma sorted_map_erase:
  "sorted_wrt (<) (map fst m) \<Longrightarrow> sorted_wrt (<) (map fst (map_erase k m))"
  unfolding map_erase_def by (induction m) auto

lemma map_of_map_erase: "map_of (map_erase k m) = (map_of m)(k := None)"
  unfolding map_erase_def by (induction m) auto

lemma set_unguarded_linear_insert:
  "set (unguarded_linear_insert cmp val xs) = insert val (set xs)"
  by (induction xs) auto

lemma length_unguarded_linear_insert:
  "length (unguarded_linear_insert cmp val xs) = Suc (length xs)"
  by (induction xs) auto

lemma set_insertion_step: "set (insertion_step cmp prefix val) = insert val (set prefix)"
  by (auto simp: insertion_step_def set_unguarded_linear_insert split: list.splits)

lemma length_insertion_step: "length (insertion_step cmp prefix val) = Suc (length prefix)"
  by (auto simp: insertion_step_def length_unguarded_linear_insert split: list.splits)

lemma set_foldl_insertion_step:
  "set (foldl (insertion_step cmp) acc xs) = set acc \<union> set xs"
  by (induction xs arbitrary: acc) (auto simp: set_insertion_step)

lemma length_foldl_insertion_step:
  "length (foldl (insertion_step cmp) acc xs) = length acc + length xs"
  by (induction xs arbitrary: acc) (auto simp: length_insertion_step)

lemma set_std_sort: "set (std_sort cmp xs) = set xs"
  by (simp add: std_sort_def set_foldl_insertion_step)

lemma length_std_sort: "length (std_sort cmp xs) = length xs"
  by (simp add: std_sort_def length_foldl_insertion_step)

section \<open>Lemmas on the loops of the query\<close>

lemma FindTopDocuments_subset:
  assumes "FindTopDocuments srv rawQuery p = Inr ds"
    and "parseQuery srv rawQuery empty_query = (True, query)"
  shows "\<exists>found. findAllDocuments srv query p = Inr found \<and> set ds \<subseteq> set found"
proof -
  from assms obtain found where f: "findAllDocuments srv query p = Inr found"
    by (auto simp: FindTopDocuments_def split: sum.splits)
  have "ds = (let m = std_sort relevance_order found
              in if length m > MAX_RESULT_DOCUMENT_COUNT then take MAX_RESULT_DOCUMENT_COUNT m else m)"
    using assms f by (simp add: FindTopDocuments_def Let_def)
  then have "set ds \<subseteq> set (std_sort relevance_order found)"
    by (auto simp: Let_def dest: in_set_takeD)
  then show ?thesis using f by (simp add: set_std_sort)
qed






section \<open>Adding documents\<close>

text \<open>The two outcomes of \<open>AddDocument\<close> of \<open>Source1.cpp\<close>.\<close>

lemma AddDocument_cases:
  obtains (fail) "AddDocument srv documentId document st ratings = (Some invalid_argument, srv)"
  | (ok) ws where "0 \<le> documentId" "map_of (documents srv) documentId = None"
      "splitIntoWordsNoStop srv document [] = (True, ws)"
      "AddDocument srv documentId document st ratings =
         (None, srv\<lparr>word_to_document_freqs :=
                       foldl (add_occurrence (1 / real (length ws)) documentId)
                         (word_to_document_freqs srv) ws,
                     documents :=
                       map_put documentId
                         \<lparr>rating = computeAverageRating ratings, status = st, words = ws\<rparr>
                         (documents srv),
                     document_ids := document_ids srv @ [documentId]\<rparr>)"
proof (cases "documentId < 0 \<or> map_of (documents srv) documentId \<noteq> None")
  case True
  then show ?thesis using fail by (simp add: AddDocument_def)
next
  case False
  obtain valid ws where sp: "splitIntoWordsNoStop srv document [] = (valid, ws)"
    by (cases "splitIntoWordsNoStop srv document []")
  show ?thesis
  proof (cases valid)
    case False
    then show ?thesis using fail sp by (simp add: AddDocument_def)
  next
    case True
    have "AddDocument srv documentId document st ratings =
         (None, srv\<lparr>word_to_document_freqs :=
                       foldl (add_occurrence (1 / real (length ws)) documentId)
                         (word_to_document_freqs srv) ws,
                     documents :=
                       map_put documentId
                         \<lparr>rating = computeAverageRating ratings, status = st, words = ws\<rparr>
                         (documents srv),
                     document_ids := document_ids srv @ [documentId]\<rparr>)"
      using False sp True
      by (simp add: AddDocument_def calculateTermFrequency_def map_emplace_def map_of_map_put
          Let_def)
    then show ?thesis using ok False sp True by simp
  qed
qed

lemma splitIntoWordsNoStop_loop_ok:
  "fst (splitIntoWordsNoStop_loop srv tempWords ws) = (\<forall>w \<in> set tempWords. isValidWord w)"
  by (induction tempWords arbitrary: ws) simp_all

text \<open>
  Claim C6, as the code has it. \<open>AddDocument\<close> fails with \<open>invalid_argument\<close> whenever
  a token of the text is not a valid word. The tokens are those of \<open>split\<close>.
\<close>

theorem AddDocument_rejects_invalid_token:
  assumes "\<exists>w \<in> set (split document). \<not> isValidWord w"
  shows "fst (AddDocument srv documentId document st ratings) = Some invalid_argument"
proof -
  have "\<not> fst (splitIntoWordsNoStop srv document [])"
    using assms by (simp add: splitIntoWordsNoStop_def splitIntoWordsNoStop_loop_ok)
  then show ?thesis
    by (auto simp: AddDocument_def split: prod.splits bool.splits)
qed

text \<open>The third token holds the control character 0x12, as in \<open>main\<close>.\<close>

theorem AddDocument_rejects_invalid_token_witness:
  "(\<exists>w \<in> set (split (''big dog skvo'' @ [CHR 0x12] @ ''rec'')). \<not> isValidWord w) \<and>
   fst (AddDocument six_cats 7 (''big dog skvo'' @ [CHR 0x12] @ ''rec'') ACTUAL [1, 3, 2])
     = Some invalid_argument"
proof -
  have h: "\<exists>w \<in> set (split (''big dog skvo'' @ [CHR 0x12] @ ''rec'')). \<not> isValidWord w"
    by (simp add: tokenizer_defs)
  show ?thesis
    using h AddDocument_rejects_invalid_token [OF h, of six_cats 7 ACTUAL "[1, 3, 2]"] by blast
qed

text \<open>
  The other half of C6 does not hold: an empty text has no token, so
  \<open>splitIntoWordsNoStop\<close> reports success, and the document is stored without words.
\<close>

theorem AddDocument_accepts_empty_text:
  "fst (AddDocument empty_server 0 [] ACTUAL []) = None \<and>
   documents (snd (AddDocument empty_server 0 [] ACTUAL []))
     = [(0, \<lparr>rating = 0, status = ACTUAL, words = []\<rparr>)]"
  by (simp add: tokenizer_defs index_defs computeAverageRating_def)

text \<open>
  Claim C7. A call of \<open>AddDocument\<close> that fails leaves the server as it was: every
  \<open>throw\<close> of \<open>Source1.cpp\<close> and the \<open>return false\<close> of \<open>part_000\<close> come before
  the first write to a member. The server holds the document map, the id list and the
  term index; the document count is the size of the document map.
\<close>

theorem AddDocument_atomic:
  "(fst (AddDocument srv documentId document st ratings) \<noteq> None \<longrightarrow>
      snd (AddDocument srv documentId document st ratings) = srv) \<and>
   (\<not> fst (AddDocument_p0 srv0 documentId document st ratings) \<longrightarrow>
      snd (AddDocument_p0 srv0 documentId document st ratings) = srv0)"
  by (auto simp: AddDocument_def AddDocument_p0_def Let_def split: prod.splits bool.splits)

text \<open>A document id that is taken, and an empty text for \<open>part_000\<close>.\<close>

theorem AddDocument_atomic_witness:
  "fst (AddDocument six_cats 3 ''big dog'' ACTUAL [1, 2]) \<noteq> None \<and>
   snd (AddDocument six_cats 3 ''big dog'' ACTUAL [1, 2]) = six_cats \<and>
   \<not> fst (AddDocument_p0 empty_server_p0 3 [] ACTUAL [1, 2]) \<and>
   snd (AddDocument_p0 empty_server_p0 3 [] ACTUAL [1, 2]) = empty_server_p0"
proof -
  have a: "fst (AddDocument six_cats 3 ''big dog'' ACTUAL [1, 2]) \<noteq> None"
    by (simp add: AddDocument_def six_cats_eq)
  have b: "\<not> fst (AddDocument_p0 empty_server_p0 3 [] ACTUAL [1, 2])"
    by (simp add: AddDocument_p0_def)
  show ?thesis
    using a b AddDocument_atomic [of six_cats 3 "''big dog''" ACTUAL "[1, 2]" empty_server_p0]
      AddDocument_atomic [of six_cats 3 "[]" ACTUAL "[1, 2]" empty_server_p0]
    by blast
qed

section \<open>Ratings\<close>

lemma foldl_plus_sum_list:
  fixes a :: "'a::monoid_add"
  shows "foldl (+) a xs = a + sum_list xs"
  by (induction xs arbitrary: a) (simp_all add: add.assoc)

lemma word_sum_list_sint:
  fixes xs :: "32 word list"
  shows "sum_list xs = word_of_int (\<Sum>r\<leftarrow>xs. sint r)"
  by (induction xs) simp_all

lemma sint_word_of_int_range:
  assumes "- (2 ^ 31) \<le> k" "k < 2 ^ 31"
  shows "sint (word_of_int k :: 32 word) = k"
proof -
  have "signed_take_bit 31 k = k"
    using assms by (intro signed_take_bit_int_eq_self) simp_all
  then show ?thesis by (simp add: signed_of_int)
qed

lemma sdiv_int_trunc:
  fixes s n :: int
  assumes "0 < n"
  shows "s sdiv n = (if 0 \<le> s then s div n else - ((- s) div n))"
  using assms by (auto simp add: signed_divide_int_def sgn_if)

lemma div_pos_le_self:
  fixes a n :: int
  assumes "0 \<le> a" "0 < n"
  shows "0 \<le> a div n" and "a div n \<le> a"
proof -
  show "0 \<le> a div n" using assms by (simp add: pos_imp_zdiv_nonneg_iff)
  have "a div n \<le> a div 1" using assms by (intro zdiv_mono2) simp_all
  then show "a div n \<le> a" by simp
qed

text \<open>
  The integer mean of \<open>computeAverageRating\<close>. The sum is the one of the integers the
  words stand for: the hypotheses say that it fits the C++ \<open>int\<close>, as does the number of
  ratings; beyond that the C++ addition is undefined. The quotient is written with the
  flooring \<open>div\<close> of HOL on non-negative operands only.
\<close>

lemma computeAverageRating_mean:
  assumes len: "length ratings < 2 ^ 31"
    and lo: "- (2 ^ 31) \<le> (\<Sum>r\<leftarrow>ratings. sint r)"
    and hi: "(\<Sum>r\<leftarrow>ratings. sint r) < 2 ^ 31"
  shows "sint (computeAverageRating ratings) =
           (if ratings = [] then 0
            else if 0 \<le> (\<Sum>r\<leftarrow>ratings. sint r)
                 then (\<Sum>r\<leftarrow>ratings. sint r) div int (length ratings)
                 else - ((- (\<Sum>r\<leftarrow>ratings. sint r)) div int (length ratings)))"
proof (cases "ratings = []")
  case True
  then show ?thesis by (simp add: computeAverageRating_def)
next
  case False
  define s where "s = (\<Sum>r\<leftarrow>ratings. sint r)"
  define n where "n = int (length ratings)"
  define q where "q = (if 0 \<le> s then s div n else - ((- s) div n))"
  have npos: "0 < n" using False by (simp add: n_def)
  have nlt: "n < 2 ^ 31" using len by (simp add: n_def)
  have slo: "- (2 ^ 31) \<le> s" and shi: "s < 2 ^ 31" using lo hi by (simp_all add: s_def)
  have cntw: "(of_nat (length ratings) :: 32 word) = word_of_int n" by (simp add: n_def)
  have cnt: "sint (of_nat (length ratings) :: 32 word) = n"
    unfolding cntw using npos nlt by (intro sint_word_of_int_range) simp_all
  have cnt0: "(of_nat (length ratings) :: 32 word) \<noteq> 0"
  proof
    assume "(of_nat (length ratings) :: 32 word) = 0"
    then have "sint (of_nat (length ratings) :: 32 word) = 0" by simp
    then show False using cnt npos by simp
  qed
  have accw: "accumulate ratings 0 = word_of_int s"
    by (simp add: accumulate_def foldl_plus_sum_list word_sum_list_sint s_def)
  have acc: "sint (accumulate ratings 0) = s"
    unfolding accw using slo shi by (rule sint_word_of_int_range)
  have qlo: "- (2 ^ 31) \<le> q"
  proof (cases "0 \<le> s")
    case True
    then show ?thesis using div_pos_le_self(1) [of s n] npos by (simp add: q_def)
  next
    case False
    then have "(- s) div n \<le> - s" using div_pos_le_self(2) [of "- s" n] npos by simp
    then show ?thesis using False slo by (simp add: q_def)
  qed
  have qhi: "q < 2 ^ 31"
  proof (cases "0 \<le> s")
    case True
    then show ?thesis using div_pos_le_self(2) [of s n] npos shi by (simp add: q_def)
  next
    case False
    then have "0 \<le> (- s) div n" using div_pos_le_self(1) [of "- s" n] npos by simp
    then show ?thesis using False by (simp add: q_def)
  qed
  have sq: "s sdiv n = q" unfolding q_def by (rule sdiv_int_trunc [OF npos])
  have "computeAverageRating ratings =
          word_of_int (sint (accumulate ratings 0) sdiv sint (of_nat (length ratings) :: 32 word))"
    using cnt0 by (simp add: computeAverageRating_def Let_def int_div_def)
  then have "computeAverageRating ratings = word_of_int q"
    by (simp only: acc cnt sq)
  then have "sint (computeAverageRating ratings) = q"
    using sint_word_of_int_range [OF qlo qhi] by simp
  then show ?thesis using False by (simp add: q_def s_def n_def)
qed

text \<open>
  Claim C5. The rating that \<open>AddDocument\<close> stores with an accepted document is the
  mean of the ratings, truncated toward zero, and 0 for an empty list. The ratings are
  32-bit words read as signed; the hypotheses say that their sum and their number fit
  the C++ \<open>int\<close>.
\<close>

theorem stored_rating_is_truncated_mean:
  assumes accepted: "fst (AddDocument srv documentId document st ratings) = None"
    and len: "length ratings < 2 ^ 31"
    and lo: "- (2 ^ 31) \<le> (\<Sum>r\<leftarrow>ratings. sint r)"
    and hi: "(\<Sum>r\<leftarrow>ratings. sint r) < 2 ^ 31"
  shows "\<exists>d. map_of (documents (snd (AddDocument srv documentId document st ratings))) documentId
               = Some d \<and>
             sint (rating d) =
               (if ratings = [] then 0
                else if 0 \<le> (\<Sum>r\<leftarrow>ratings. sint r)
                     then (\<Sum>r\<leftarrow>ratings. sint r) div int (length ratings)
                     else - ((- (\<Sum>r\<leftarrow>ratings. sint r)) div int (length ratings)))"
proof (cases rule: AddDocument_cases [of srv documentId document st ratings])
  case fail
  then show ?thesis using accepted by simp
next
  case (ok ws)
  have "map_of (documents (snd (AddDocument srv documentId document st ratings))) documentId
          = Some \<lparr>rating = computeAverageRating ratings, status = st, words = ws\<rparr>"
    using ok(4) by (simp add: map_of_map_put)
  then show ?thesis
    using computeAverageRating_mean [OF len lo hi] by simp
qed

text \<open>
  The ratings of the tests: \<open>{8, -3}\<close> gives 2 and \<open>{7, 2, 7}\<close> gives 5; \<open>{-8, 3}\<close>
  gives -2, where the flooring division would give -3.
\<close>

theorem stored_rating_is_truncated_mean_witness:
  "fst (AddDocument empty_server 2 ''white cat'' ACTUAL [8, - 3]) = None \<and>
   (\<exists>d. map_of (documents (snd (AddDocument empty_server 2 ''white cat'' ACTUAL [8, - 3]))) 2
           = Some d \<and> sint (rating d) = 2) \<and>
   (\<exists>d. map_of (documents (snd (AddDocument empty_server 2 ''white cat'' ACTUAL [7, 2, 7]))) 2
           = Some d \<and> sint (rating d) = 5) \<and>
   (\<exists>d. map_of (documents (snd (AddDocument empty_server 2 ''white cat'' ACTUAL [- 8, 3]))) 2
           = Some d \<and> sint (rating d) = - 2) \<and>
   (\<exists>d. map_of (documents (snd (AddDocument empty_server 2 ''white cat'' ACTUAL []))) 2
           = Some d \<and> sint (rating d) = 0)"
proof -
  have h: "fst (AddDocument empty_server 2 ''white cat'' ACTUAL ratings) = None" for ratings
    by (simp add: AddDocument_def empty_server_def splitIntoWordsNoStop_def tokenizer_defs
        split: prod.splits)
  show ?thesis
    using h [of "[8, - 3]"]
      stored_rating_is_truncated_mean [OF h, of "[8, - 3]"]
      stored_rating_is_truncated_mean [OF h, of "[7, 2, 7]"]
      stored_rating_is_truncated_mean [OF h, of "[- 8, 3]"]
      stored_rating_is_truncated_mean [OF h, of "[]"]
    by simp
qed

section \<open>The result list is capped\<close>

text \<open>
  Claim C4. Whatever the server, the query and the predicate, a list returned by
  \<open>FindTopDocuments\<close> has at most 5 entries.
\<close>

theorem FindTopDocuments_at_most_five:
  "FindTopDocuments srv rawQuery document_predicate = Inr ds \<Longrightarrow> length ds \<le> 5"
  by (auto simp: FindTopDocuments_def MAX_RESULT_DOCUMENT_COUNT_def Let_def
      split: prod.splits bool.splits sum.splits if_splits)

text \<open>All six documents of \<open>six_cats\<close> match \<open>cat\<close>; five are returned.\<close>

theorem FindTopDocuments_at_most_five_witness:
  "FindTopDocuments six_cats ''cat'' (\<lambda>i s r. True) =
     Inr (map (\<lambda>i. \<lparr>doc_id = i, relevance = 0, doc_rating = 1\<rparr>) [0, 1, 2, 3, 4]) \<and>
   length (map (\<lambda>i. \<lparr>doc_id = i, relevance = 0, doc_rating = 1 :: 32 word\<rparr>) [0, 1, 2, 3, 4 :: int])
     \<le> 5"
proof -
  have h: "FindTopDocuments six_cats ''cat'' (\<lambda>i s r. True) =
      Inr (map (\<lambda>i. \<lparr>doc_id = i, relevance = 0, doc_rating = 1\<rparr>) [0, 1, 2, 3, 4])"
    unfolding six_cats_eq by (simp add: query_defs tokenizer_defs)
  show ?thesis
    using h FindTopDocuments_at_most_five [OF h] by blast
qed

section \<open>Minus words\<close>










section \<open>Matching\<close>

lemma match_minus_voids:
  assumes "word \<in> set ws" and "indexes srv word documentId"
  shows "match_minus srv documentId ws matched_words = []"
  using assms by (induction ws) auto

text \<open>
  Claim C8. When a minus word of the parsed query indexes a stored document,
  \<open>MatchDocument\<close> returns the empty list and the status of the document.
\<close>

theorem MatchDocument_minus_voids:
  assumes "parseQuery srv rawQuery empty_query = (True, query)"
    and "map_of (documents srv) documentId = Some document_data"
    and "word \<in> set (minus_words query)"
    and "indexes srv word documentId"
  shows "MatchDocument srv rawQuery documentId = Inr ([], status document_data)"
  using assms(1,2) match_minus_voids [OF assms(3,4)]
  by (simp add: MatchDocument_def)

lemma three_docs_query2:
  "parseQuery three_docs ''kyle cat -black'' empty_query
     = (True, \<lparr>plus_words = [''cat'', ''kyle''], minus_words = [''black'']\<rparr>)"
  unfolding three_docs_eq by (simp add: query_defs tokenizer_defs)

text \<open>Document 9 holds both plus words and the minus word.\<close>

theorem MatchDocument_minus_voids_witness:
  "parseQuery three_docs ''kyle cat -black'' empty_query
     = (True, \<lparr>plus_words = [''cat'', ''kyle''], minus_words = [''black'']\<rparr>) \<and>
   indexes three_docs ''cat'' 9 \<and> indexes three_docs ''kyle'' 9 \<and> indexes three_docs ''black'' 9 \<and>
   MatchDocument three_docs ''kyle cat -black'' 9 = Inr ([], ACTUAL)"
proof -
  have d: "map_of (documents three_docs) 9
      = Some \<lparr>rating = 2, status = ACTUAL, words = [''black'', ''cat'', ''kyle'']\<rparr>"
    by (simp add: three_docs_eq)
  have i: "indexes three_docs ''cat'' 9" "indexes three_docs ''kyle'' 9"
    "indexes three_docs ''black'' 9"
    by (simp_all add: three_docs_eq indexes_def)
  show ?thesis
    using i three_docs_query2 MatchDocument_minus_voids [OF three_docs_query2 d _ i(3)]
    by simp
qed

lemma parseQuery_loop_sorted:
  assumes "sorted_wrt (<) (plus_words query)" and "sorted_wrt (<) (minus_words query)"
    and "parseQuery_loop srv ws query = (ok, query')"
  shows "sorted_wrt (<) (plus_words query') \<and> sorted_wrt (<) (minus_words query')"
  using assms
proof (induction ws arbitrary: query)
  case Nil
  then show ?case by simp
next
  case (Cons w ws)
  show ?case
  proof (cases "parseQueryWord srv w")
    case None
    then show ?thesis using Cons.prems by simp
  next
    case (Some qw)
    show ?thesis
    proof (cases "is_stop qw")
      case True
      then show ?thesis using Cons Some by simp
    next
      case False
      show ?thesis
      proof (cases "is_minus qw")
        case True
        have "parseQuery_loop srv ws
                (query\<lparr>minus_words := set_insert (data qw) (minus_words query)\<rparr>) = (ok, query')"
          using Cons.prems(3) Some False True by simp
        then show ?thesis
          using Cons.prems(1,2) by (intro Cons.IH) (simp_all add: sorted_set_insert)
      next
        case nm: False
        have "parseQuery_loop srv ws
                (query\<lparr>plus_words := set_insert (data qw) (plus_words query)\<rparr>) = (ok, query')"
          using Cons.prems(3) Some False nm by simp
        then show ?thesis
          using Cons.prems(1,2) by (intro Cons.IH) (simp_all add: sorted_set_insert)
      qed
    qed
  qed
qed

lemma parseQuery_sorted:
  assumes "parseQuery srv text empty_query = (ok, query)"
  shows "sorted_wrt (<) (plus_words query)" and "sorted_wrt (<) (minus_words query)"
  using parseQuery_loop_sorted [of empty_query srv "split text" ok query] assms
  by (simp_all add: parseQuery_def empty_query_def)

lemma match_plus_filter:
  "match_plus srv documentId ws matched_words
     = matched_words @ filter (\<lambda>w. indexes srv w documentId) ws"
  by (induction ws arbitrary: matched_words) simp_all

lemma match_minus_cases:
  "match_minus srv documentId ws matched_words = [] \<or>
   match_minus srv documentId ws matched_words = matched_words"
  by (induction ws) auto

text \<open>
  Claim C10. The words that \<open>MatchDocument\<close> returns ascend strictly in the order of
  \<open>std::string\<close> (bytewise, a prefix first), so no word occurs twice.
\<close>

theorem MatchDocument_strictly_ascending:
  assumes "MatchDocument srv rawQuery documentId = Inr (matched_words, st)"
  shows "sorted_wrt (<) matched_words \<and> distinct matched_words"
proof -
  from assms obtain query where q: "parseQuery srv rawQuery empty_query = (True, query)"
    and m: "matched_words = match_minus srv documentId (minus_words query)
              (match_plus srv documentId (plus_words query) [])"
    by (auto simp: MatchDocument_def Let_def split: prod.splits bool.splits option.splits)
  have "sorted_wrt (<) (filter (\<lambda>w. indexes srv w documentId) (plus_words query))"
    using parseQuery_sorted(1) [OF q] by (rule sorted_wrt_filter)
  then have "sorted_wrt (<) (match_plus srv documentId (plus_words query) [])"
    by (simp add: match_plus_filter)
  then have s: "sorted_wrt (<) matched_words"
    using match_minus_cases [of srv documentId "minus_words query"
        "match_plus srv documentId (plus_words query) []"] m
    by auto
  then have "distinct matched_words"
    by (simp add: strict_sorted_iff)
  then show ?thesis using s by simp
qed

text \<open>Both words of \<open>kyle cat\<close> are in document 9; they come back as \<open>cat\<close>, \<open>kyle\<close>.\<close>

theorem MatchDocument_strictly_ascending_witness:
  "MatchDocument three_docs ''kyle cat'' 9 = Inr ([''cat'', ''kyle''], ACTUAL) \<and>
   sorted_wrt (<) [''cat'', ''kyle''] \<and> distinct [''cat'', ''kyle'']"
proof -
  have m: "MatchDocument three_docs ''kyle cat'' 9 = Inr ([''cat'', ''kyle''], ACTUAL)"
    unfolding three_docs_eq
    by (simp add: MatchDocument_def indexes_def query_defs tokenizer_defs)
  show ?thesis
    using m MatchDocument_strictly_ascending [OF m] by blast
qed

section \<open>The invariant of the term index\<close>

lemma map_put_not_Nil: "map_put k v m \<noteq> []"
  by (cases m) (auto split: if_splits)

lemma set_map_put_subset: "set (map_put k v m) \<subseteq> insert (k, v) (set m)"
  by (induction m) (auto split: if_splits)

lemma no_empty_entry_iff: "no_empty_entry idx \<longleftrightarrow> (\<forall>e \<in> set idx. snd e \<noteq> [])"
  by (simp add: no_empty_entry_def list_all_iff)

lemma no_empty_entry_add_occurrence:
  assumes "no_empty_entry idx"
  shows "no_empty_entry (add_occurrence inv_word_count documentId idx word)"
proof -
  have "\<forall>e \<in> set (map_put word (map_put documentId x fr) idx). snd e \<noteq> []" for x fr
    using assms set_map_put_subset [of word "map_put documentId x fr" idx] map_put_not_Nil
    by (fastforce simp: no_empty_entry_iff)
  then show ?thesis
    by (simp add: add_occurrence_def Let_def no_empty_entry_iff)
qed

lemma no_empty_entry_foldl:
  "no_empty_entry idx \<Longrightarrow>
   no_empty_entry (foldl (add_occurrence inv_word_count documentId) idx ws)"
  by (induction ws arbitrary: idx) (simp_all add: no_empty_entry_add_occurrence)

lemma no_empty_entry_calculateTermFrequency:
  "no_empty_entry idx \<Longrightarrow> no_empty_entry (snd (calculateTermFrequency docs idx documentId))"
  by (simp add: calculateTermFrequency_def Let_def no_empty_entry_foldl)

lemma index_SetStopWords:
  "word_to_document_freqs (snd (SetStopWords srv ws)) = word_to_document_freqs srv"
  by (induction srv ws rule: SetStopWords.induct) simp_all

lemma no_empty_entry_AddDocument:
  assumes "no_empty_entry (word_to_document_freqs srv)"
  shows "no_empty_entry (word_to_document_freqs (snd (AddDocument srv documentId document st ratings)))"
proof (cases rule: AddDocument_cases [of srv documentId document st ratings])
  case fail
  then show ?thesis using assms by simp
next
  case (ok ws)
  then show ?thesis using assms by (simp add: no_empty_entry_foldl)
qed

lemma reachable_no_empty_entry:
  "reachable srv \<Longrightarrow> no_empty_entry (word_to_document_freqs srv)"
proof (induction rule: reachable.induct)
  case reachable_empty
  then show ?case by (simp add: empty_server_def no_empty_entry_def)
next
  case (reachable_SetStopWords srv stopWords)
  then show ?case by (simp add: index_SetStopWords)
next
  case (reachable_SetStopWordsText srv stopWordsText)
  then show ?case by (simp add: SetStopWordsText_def index_SetStopWords)
next
  case (reachable_AddDocument srv documentId document st ratings)
  then show ?case by (simp add: no_empty_entry_AddDocument)
qed

lemma foldl_map_erase:
  "foldl (\<lambda>i word. map_erase word i) idx ws = filter (\<lambda>e. fst e \<notin> set ws) idx"
proof (induction ws arbitrary: idx)
  case Nil
  then show ?case by simp
next
  case (Cons w ws)
  have "filter (\<lambda>e. fst e \<notin> set ws) (map_erase w idx) = filter (\<lambda>e. fst e \<notin> set (w # ws)) idx"
    by (auto simp: map_erase_def intro: filter_cong)
  then show ?case using Cons.IH by simp
qed

lemma no_empty_entry_deleteAllDocumentWords:
  "no_empty_entry (deleteAllDocumentWords idx documentId)"
  by (force simp: deleteAllDocumentWords_def Let_def foldl_map_erase no_empty_entry_iff)

lemma no_empty_entry_AddDocument_p0:
  assumes "no_empty_entry (word_to_document_freqs_p0 srv)"
  shows "no_empty_entry
           (word_to_document_freqs_p0 (snd (AddDocument_p0 srv document_id document st ratings)))"
proof (cases "document = []")
  case True
  then show ?thesis using assms by (simp add: AddDocument_p0_def)
next
  case False
  obtain added docs1 where a: "addDocumentData_p0 (documents_p0 srv) document_id
      (splitIntoWordsNoStop_p0 srv document) st ratings = (added, docs1)"
    by (cases "addDocumentData_p0 (documents_p0 srv) document_id
      (splitIntoWordsNoStop_p0 srv document) st ratings")
  define idx1 where "idx1 = (if \<not> added
      then deleteAllDocumentWords (word_to_document_freqs_p0 srv) document_id
      else word_to_document_freqs_p0 srv)"
  have i1: "no_empty_entry idx1"
    using assms by (simp add: idx1_def no_empty_entry_deleteAllDocumentWords)
  have "word_to_document_freqs_p0 (snd (AddDocument_p0 srv document_id document st ratings))
          = snd (calculateTermFrequency docs1 idx1 document_id)"
    using False a by (simp add: AddDocument_p0_def idx1_def split: prod.splits)
  then show ?thesis using i1 by (simp add: no_empty_entry_calculateTermFrequency)
qed

lemma reachable_p0_no_empty_entry:
  "reachable_p0 srv \<Longrightarrow> no_empty_entry (word_to_document_freqs_p0 srv)"
proof (induction rule: reachable_p0.induct)
  case reachable_p0_empty
  then show ?case by (simp add: empty_server_p0_def no_empty_entry_def)
next
  case (reachable_p0_SetStopWords srv t)
  then show ?case by (simp add: SetStopWords_p0_def)
next
  case (reachable_p0_AddDocument srv document_id document st ratings)
  then show ?case by (simp add: no_empty_entry_AddDocument_p0)
qed

text \<open>
  Claim C9. In every reachable server, of \<open>Source1.cpp\<close> and of \<open>part_000\<close>, no
  word of the term index has an empty map of documents.
\<close>

theorem term_index_has_no_empty_entry:
  "(reachable srv \<longrightarrow> no_empty_entry (word_to_document_freqs srv)) \<and>
   (reachable_p0 srv0 \<longrightarrow> no_empty_entry (word_to_document_freqs_p0 srv0))"
  using reachable_no_empty_entry reachable_p0_no_empty_entry by blast

lemma reachable_three_docs: "reachable three_docs"
  unfolding three_docs_def
  by (intro reachable_AddDocument reachable_SetStopWordsText reachable_empty)

lemma reachable_readded_p0: "reachable_p0 readded_p0"
  unfolding readded_p0_def
  by (intro reachable_p0_AddDocument reachable_p0_empty)

lemma readded_p0_index:
  "word_to_document_freqs_p0 readded_p0 = [(''cat'', [(1, 2 / 3)]), (''dog'', [(1, 1 / 3)])]"
  by (simp add: readded_p0_def AddDocument_p0_def empty_server_p0_def addDocumentData_p0_def
      splitIntoWordsNoStop_p0_def SplitIntoWords_def deleteAllDocumentWords_def map_erase_def
      map_emplace_def calculateTermFrequency_def add_occurrence_def Let_def)

text \<open>
  The server of the test, and the server of \<open>part_000\<close> whose second \<open>AddDocument\<close>
  went through \<open>deleteAllDocumentWords\<close>.
\<close>

theorem term_index_has_no_empty_entry_witness:
  "reachable three_docs \<and> no_empty_entry (word_to_document_freqs three_docs) \<and>
   reachable_p0 readded_p0 \<and> no_empty_entry (word_to_document_freqs_p0 readded_p0) \<and>
   word_to_document_freqs_p0 readded_p0 = [(''cat'', [(1, 2 / 3)]), (''dog'', [(1, 1 / 3)])]"
  using term_index_has_no_empty_entry [of three_docs readded_p0]
    reachable_three_docs reachable_readded_p0 readded_p0_index
  by blast

section \<open>Relevance\<close>

lemma tf_lookup_add_occurrence:
  "tf_lookup (add_occurrence inv_word_count documentId idx word) term d =
     (if term = word \<and> d = documentId
      then Some ((case tf_lookup idx word documentId of None \<Rightarrow> 0 | Some x \<Rightarrow> x) + inv_word_count)
      else tf_lookup idx term d)"
  by (auto simp: tf_lookup_def add_occurrence_def Let_def map_of_map_put split: option.splits)

lemma count_list_notin: "x \<notin> set xs \<Longrightarrow> count_list xs x = 0"
  by (induction xs) auto

lemma tf_lookup_foldl:
  "tf_lookup (foldl (add_occurrence inv_word_count documentId) idx ws) term d =
     (if d = documentId \<and> term \<in> set ws
      then Some ((case tf_lookup idx term documentId of None \<Rightarrow> 0 | Some x \<Rightarrow> x)
                 + real (count_list ws term) * inv_word_count)
      else tf_lookup idx term d)"
proof (induction ws arbitrary: idx)
  case Nil
  then show ?case by simp
next
  case (Cons w ws)
  have ih: "tf_lookup (foldl (add_occurrence inv_word_count documentId)
                (add_occurrence inv_word_count documentId idx w) ws) term d =
     (if d = documentId \<and> term \<in> set ws
      then Some ((case tf_lookup (add_occurrence inv_word_count documentId idx w) term documentId
                  of None \<Rightarrow> 0 | Some x \<Rightarrow> x)
                 + real (count_list ws term) * inv_word_count)
      else tf_lookup (add_occurrence inv_word_count documentId idx w) term d)"
    by (rule Cons.IH)
  show ?case
    unfolding foldl_Cons ih tf_lookup_add_occurrence
    by (auto simp: algebra_simps count_list_notin)
qed

lemma map_of_add_occurrence_sorted:
  assumes "\<forall>term freqs. map_of idx term = Some freqs \<longrightarrow> sorted_wrt (<) (map fst freqs)"
  shows "\<forall>term freqs. map_of (add_occurrence inv_word_count documentId idx word) term = Some freqs
           \<longrightarrow> sorted_wrt (<) (map fst freqs)"
  using assms
  by (auto simp: add_occurrence_def Let_def map_of_map_put sorted_map_put split: option.splits if_splits)

lemma map_of_foldl_sorted:
  assumes "\<forall>term freqs. map_of idx term = Some freqs \<longrightarrow> sorted_wrt (<) (map fst freqs)"
  shows "\<forall>term freqs.
           map_of (foldl (add_occurrence inv_word_count documentId) idx ws) term = Some freqs
           \<longrightarrow> sorted_wrt (<) (map fst freqs)"
  using assms
proof (induction ws arbitrary: idx)
  case Nil
  then show ?case by simp
next
  case (Cons w ws)
  show ?case
    using Cons.IH [OF map_of_add_occurrence_sorted [OF Cons.prems]] by simp
qed

lemma documents_SetStopWords: "documents (snd (SetStopWords srv ws)) = documents srv"
  by (induction srv ws rule: SetStopWords.induct) simp_all

lemma index_consistent_SetStopWords:
  "index_consistent srv \<Longrightarrow> index_consistent (snd (SetStopWords srv ws))"
  by (simp add: index_consistent_def documents_SetStopWords index_SetStopWords)

lemma index_consistent_AddDocument:
  assumes "index_consistent srv"
  shows "index_consistent (snd (AddDocument srv documentId document st ratings))"
proof (cases rule: AddDocument_cases [of srv documentId document st ratings])
  case fail
  then show ?thesis using assms by simp
next
  case (ok ws)
  define dd where "dd = \<lparr>rating = computeAverageRating ratings, status = st, words = ws\<rparr>"
  define idx' where "idx' = foldl (add_occurrence (1 / real (length ws)) documentId)
                         (word_to_document_freqs srv) ws"
  define docs' where "docs' = map_put documentId dd (documents srv)"
  have srv': "snd (AddDocument srv documentId document st ratings)
      = srv\<lparr>word_to_document_freqs := idx', documents := docs',
             document_ids := document_ids srv @ [documentId]\<rparr>"
    using ok(4) by (simp add: idx'_def docs'_def dd_def)
  have s1: "sorted_wrt (<) (map fst (documents srv))"
    and s2: "\<forall>term freqs. map_of (word_to_document_freqs srv) term = Some freqs
        \<longrightarrow> sorted_wrt (<) (map fst freqs)"
    and s3: "\<And>term d. tf_lookup (word_to_document_freqs srv) term d =
        (case map_of (documents srv) d of
           None \<Rightarrow> None
         | Some dd \<Rightarrow>
             if term \<in> set (words dd) then Some (termFrequency (words dd) term) else None)"
    using assms by (simp_all add: index_consistent_def)
  have fresh: "tf_lookup (word_to_document_freqs srv) w documentId = None" for w
    using s3 [of w documentId] ok(2) by simp
  have a: "sorted_wrt (<) (map fst docs')"
    unfolding docs'_def using s1 by (rule sorted_map_put)
  have b: "\<forall>term freqs. map_of idx' term = Some freqs \<longrightarrow> sorted_wrt (<) (map fst freqs)"
    unfolding idx'_def using s2 by (rule map_of_foldl_sorted)
  have c: "tf_lookup idx' w d =
        (case map_of docs' d of
           None \<Rightarrow> None
         | Some dd \<Rightarrow>
             if w \<in> set (words dd) then Some (termFrequency (words dd) w) else None)"
    for w d
  proof (cases "d = documentId")
    case True
    then show ?thesis
      by (simp add: idx'_def docs'_def tf_lookup_foldl fresh map_of_map_put dd_def
          termFrequency_def)
  next
    case False
    then show ?thesis
      by (simp add: idx'_def docs'_def tf_lookup_foldl map_of_map_put s3)
  qed
  show ?thesis
    unfolding srv' index_consistent_def using a b c by simp
qed

lemma reachable_index_consistent: "reachable srv \<Longrightarrow> index_consistent srv"
proof (induction rule: reachable.induct)
  case reachable_empty
  then show ?case by (simp add: index_consistent_def empty_server_def tf_lookup_def)
next
  case (reachable_SetStopWords srv ws)
  then show ?case by (simp add: index_consistent_SetStopWords)
next
  case (reachable_SetStopWordsText srv stopWordsText)
  then show ?case by (simp add: SetStopWordsText_def index_consistent_SetStopWords)
next
  case (reachable_AddDocument srv documentId document st ratings)
  then show ?case by (simp add: index_consistent_AddDocument)
qed

lemma strict_sorted_keys_map_of:
  fixes m :: "('k::linorder \<times> 'v) list"
  assumes "sorted_wrt (<) (map fst m)"
  shows "map_of m k = Some v \<longleftrightarrow> (k, v) \<in> set m"
proof -
  have "distinct (map fst m)" using assms by (simp add: strict_sorted_iff)
  then show ?thesis by simp
qed

lemma strict_sorted_unique:
  fixes xs ys :: "'a::linorder list"
  assumes "sorted_wrt (<) xs" "sorted_wrt (<) ys" "set xs = set ys"
  shows "xs = ys"
  using assms by (simp add: strict_sorted_iff sorted_distinct_set_unique)

lemma length_postings:
  assumes "index_consistent srv"
    and "map_of (word_to_document_freqs srv) term = Some freqs"
  shows "length freqs = docsContainingTerm srv term"
proof -
  let ?docs = "documents srv"
  let ?sel = "filter (\<lambda>e. term \<in> set (words (snd e))) ?docs"
  have s1: "sorted_wrt (<) (map fst ?docs)"
    and s2: "sorted_wrt (<) (map fst freqs)"
    and s3: "\<And>d. tf_lookup (word_to_document_freqs srv) term d =
        (case map_of ?docs d of
           None \<Rightarrow> None
         | Some dd \<Rightarrow>
             if term \<in> set (words dd) then Some (termFrequency (words dd) term) else None)"
    using assms by (simp_all add: index_consistent_def)
  have look: "tf_lookup (word_to_document_freqs srv) term d = map_of freqs d" for d
    using assms(2) by (simp add: tf_lookup_def)
  have sel_sorted: "sorted_wrt (<) (map fst ?sel)"
  proof -
    have "sorted_wrt (\<lambda>x y. fst x < fst y) ?docs" using s1 by (simp add: sorted_wrt_map)
    then have "sorted_wrt (\<lambda>x y. fst x < fst y) ?sel" by (rule sorted_wrt_filter)
    then show ?thesis by (simp add: sorted_wrt_map)
  qed
  have "set (map fst freqs) = set (map fst ?sel)"
  proof (rule set_eqI)
    fix d
    have "d \<in> set (map fst freqs) \<longleftrightarrow> map_of freqs d \<noteq> None"
      by (simp add: map_of_eq_None_iff)
    also have "\<dots> \<longleftrightarrow> (\<exists>dd. map_of ?docs d = Some dd \<and> term \<in> set (words dd))"
      using s3 [of d] by (auto simp: look split: option.splits if_splits)
    also have "\<dots> \<longleftrightarrow> (\<exists>dd. (d, dd) \<in> set ?docs \<and> term \<in> set (words dd))"
      by (simp add: strict_sorted_keys_map_of [OF s1])
    also have "\<dots> \<longleftrightarrow> d \<in> set (map fst ?sel)"
      by force
    finally show "d \<in> set (map fst freqs) \<longleftrightarrow> d \<in> set (map fst ?sel)" .
  qed
  then have "map fst freqs = map fst ?sel"
    using s2 sel_sorted by (intro strict_sorted_unique)
  then have "length (map fst freqs) = length (map fst ?sel)" by simp
  then show ?thesis by (simp add: docsContainingTerm_def)
qed

lemma add_relevance_lookup:
  assumes "add_relevance docs p idf freqs rel = Inr rel'" and "distinct (map fst freqs)"
  shows "map_of rel' d =
     (case map_of freqs d of
        None \<Rightarrow> map_of rel d
      | Some term_freq \<Rightarrow>
          if document_passes docs p d
          then Some ((case map_of rel d of None \<Rightarrow> 0 | Some r \<Rightarrow> r) + term_freq * idf)
          else map_of rel d)"
  using assms
proof (induction freqs arbitrary: rel)
  case Nil
  then show ?case by simp
next
  case (Cons e freqs)
  obtain d0 tf0 where e: "e = (d0, tf0)" by (cases e)
  from Cons.prems(1) obtain dd0 where dd0: "map_of docs d0 = Some dd0"
    by (auto simp: e split: option.splits)
  define rel1 where "rel1 = (if p d0 (status dd0) (rating dd0)
      then map_put d0 ((case map_of rel d0 of None \<Rightarrow> 0 | Some r \<Rightarrow> r) + tf0 * idf) rel
      else rel)"
  have run: "add_relevance docs p idf freqs rel1 = Inr rel'"
    using Cons.prems(1) dd0 by (simp add: e rel1_def)
  have dist: "distinct (map fst freqs)" and notin: "d0 \<notin> fst ` set freqs"
    using Cons.prems(2) by (simp_all add: e)
  have ih: "map_of rel' d =
     (case map_of freqs d of
        None \<Rightarrow> map_of rel1 d
      | Some term_freq \<Rightarrow>
          if document_passes docs p d
          then Some ((case map_of rel1 d of None \<Rightarrow> 0 | Some r \<Rightarrow> r) + term_freq * idf)
          else map_of rel1 d)"
    using run dist by (rule Cons.IH)
  show ?case
  proof (cases "d = d0")
    case True
    have "map_of freqs d0 = None" using notin by (simp add: map_of_eq_None_iff)
    then show ?thesis
      using ih True dd0 by (simp add: e rel1_def document_passes_def map_of_map_put)
  next
    case False
    then have "map_of rel1 d = map_of rel d" by (simp add: rel1_def map_of_map_put)
    then show ?thesis using ih False by (simp add: e split: option.splits)
  qed
qed

lemma add_relevance_sorted:
  assumes "add_relevance docs p idf freqs rel = Inr rel'" and "sorted_wrt (<) (map fst rel)"
  shows "sorted_wrt (<) (map fst rel')"
  using assms
proof (induction freqs arbitrary: rel)
  case Nil
  then show ?case by simp
next
  case (Cons e freqs)
  obtain d0 tf0 where e: "e = (d0, tf0)" by (cases e)
  from Cons.prems(1) obtain dd0 where dd0: "map_of docs d0 = Some dd0"
    by (auto simp: e split: option.splits)
  define rel1 where "rel1 = (if p d0 (status dd0) (rating dd0)
      then map_put d0 ((case map_of rel d0 of None \<Rightarrow> 0 | Some r \<Rightarrow> r) + tf0 * idf) rel
      else rel)"
  have run: "add_relevance docs p idf freqs rel1 = Inr rel'"
    using Cons.prems(1) dd0 by (simp add: e rel1_def)
  have "sorted_wrt (<) (map fst rel1)"
    using Cons.prems(2) by (simp add: rel1_def sorted_map_put)
  then show ?case using run Cons.IH by blast
qed

lemma plus_loop_sorted:
  assumes "plus_loop srv p ws rel = Inr rel'" and "sorted_wrt (<) (map fst rel)"
  shows "sorted_wrt (<) (map fst rel')"
  using assms
proof (induction ws arbitrary: rel)
  case Nil
  then show ?case by simp
next
  case (Cons w ws)
  show ?case
  proof (cases "map_of (word_to_document_freqs srv) w")
    case None
    then show ?thesis using Cons by simp
  next
    case (Some freqs)
    from Cons.prems(1) Some obtain idf rel1 where
      "add_relevance (documents srv) p idf freqs rel = Inr rel1"
      "plus_loop srv p ws rel1 = Inr rel'"
      by (auto split: sum.splits)
    then show ?thesis
      using Cons.IH add_relevance_sorted Cons.prems(2) by blast
  qed
qed

lemma indexes_contribution:
  assumes "map_of (word_to_document_freqs srv) w = Some freqs"
  shows "indexes srv w d \<longleftrightarrow> map_of freqs d \<noteq> None"
    and "map_of freqs d = Some term_freq \<Longrightarrow>
         contribution srv w d = term_freq * ln (real (GetDocumentCount srv) * 1 / real (length freqs))"
  using assms by (simp_all add: indexes_def contribution_def)

lemma plus_loop_lookup:
  assumes "plus_loop srv p ws rel = Inr rel'"
    and "\<forall>w freqs. map_of (word_to_document_freqs srv) w = Some freqs
           \<longrightarrow> sorted_wrt (<) (map fst freqs)"
  shows "map_of rel' d =
     (if document_passes (documents srv) p d \<and> (\<exists>w \<in> set ws. indexes srv w d)
      then Some ((case map_of rel d of None \<Rightarrow> 0 | Some r \<Rightarrow> r)
                 + (\<Sum>w \<leftarrow> filter (\<lambda>w. indexes srv w d) ws. contribution srv w d))
      else map_of rel d)"
  using assms(1)
proof (induction ws arbitrary: rel)
  case Nil
  then show ?case by simp
next
  case (Cons w ws)
  show ?case
  proof (cases "map_of (word_to_document_freqs srv) w")
    case None
    then have "\<not> indexes srv w d" by (simp add: indexes_def)
    moreover have "plus_loop srv p ws rel = Inr rel'" using Cons.prems None by simp
    ultimately show ?thesis using Cons.IH [of rel] by auto
  next
    case (Some freqs)
    define idf where "idf = ln (real (GetDocumentCount srv) * 1 / real (length freqs))"
    from Cons.prems Some obtain rel1 where
      r1: "add_relevance (documents srv) p idf freqs rel = Inr rel1"
      and r2: "plus_loop srv p ws rel1 = Inr rel'"
      by (auto simp: computeWordInverseDocumentFreq_def idf_def split: sum.splits)
    have dist: "distinct (map fst freqs)"
      using assms(2) Some by (simp add: strict_sorted_iff)
    have l1: "map_of rel1 d =
       (case map_of freqs d of
          None \<Rightarrow> map_of rel d
        | Some term_freq \<Rightarrow>
            if document_passes (documents srv) p d
            then Some ((case map_of rel d of None \<Rightarrow> 0 | Some r \<Rightarrow> r) + term_freq * idf)
            else map_of rel d)"
      using r1 dist by (rule add_relevance_lookup)
    have ih: "map_of rel' d =
       (if document_passes (documents srv) p d \<and> (\<exists>w \<in> set ws. indexes srv w d)
        then Some ((case map_of rel1 d of None \<Rightarrow> 0 | Some r \<Rightarrow> r)
                   + (\<Sum>w \<leftarrow> filter (\<lambda>w. indexes srv w d) ws. contribution srv w d))
        else map_of rel1 d)"
      using r2 by (rule Cons.IH)
    show ?thesis
    proof (cases "map_of freqs d")
      case None
      then have "\<not> indexes srv w d" using Some by (simp add: indexes_def)
      then show ?thesis using None ih l1 by auto
    next
      case (Some term_freq)
      have i: "indexes srv w d" using Some \<open>map_of (word_to_document_freqs srv) w = Some freqs\<close>
        by (simp add: indexes_def)
      have c: "contribution srv w d = term_freq * idf"
        using Some \<open>map_of (word_to_document_freqs srv) w = Some freqs\<close>
        by (simp add: contribution_def idf_def)
      show ?thesis using Some i c ih l1 by (auto simp: algebra_simps)
    qed
  qed
qed

lemma map_of_foldl_erase:
  "map_of (foldl (\<lambda>r e. map_erase (fst e) r) rel freqs) d =
     (if d \<in> fst ` set freqs then None else map_of rel d)"
  by (induction freqs arbitrary: rel) (auto simp: map_of_map_erase)

lemma sorted_foldl_erase:
  "sorted_wrt (<) (map fst rel) \<Longrightarrow>
   sorted_wrt (<) (map fst (foldl (\<lambda>r e. map_erase (fst e) r) rel freqs))"
  by (induction freqs arbitrary: rel) (simp_all add: sorted_map_erase)

lemma minus_loop_lookup:
  "map_of (minus_loop srv ws rel) d = Some x \<Longrightarrow> map_of rel d = Some x"
proof (induction ws arbitrary: rel)
  case Nil
  then show ?case by simp
next
  case (Cons w ws)
  show ?case
  proof (cases "map_of (word_to_document_freqs srv) w")
    case None
    then show ?thesis using Cons by simp
  next
    case (Some freqs)
    then have "map_of (foldl (\<lambda>r e. map_erase (fst e) r) rel freqs) d = Some x"
      using Cons by simp
    then show ?thesis by (simp add: map_of_foldl_erase split: if_splits)
  qed
qed

lemma minus_loop_sorted:
  "sorted_wrt (<) (map fst rel) \<Longrightarrow> sorted_wrt (<) (map fst (minus_loop srv ws rel))"
  by (induction ws arbitrary: rel) (simp_all add: sorted_foldl_erase split: option.splits)

lemma collect_documents_member:
  assumes "collect_documents docs rel = Inr ds" and "doc \<in> set ds"
  shows "(doc_id doc, relevance doc) \<in> set rel \<and> map_of docs (doc_id doc) \<noteq> None"
  using assms
proof (induction docs rel arbitrary: ds rule: collect_documents.induct)
  case (1 docs)
  then show ?case by simp
next
  case (2 docs document_id r rel)
  from "2.prems"(1) obtain dd rest where dd: "map_of docs document_id = Some dd"
    and rest: "collect_documents docs rel = Inr rest"
    and ds: "ds = \<lparr>doc_id = document_id, relevance = r, doc_rating = rating dd\<rparr> # rest"
    by (auto split: option.splits sum.splits)
  show ?case
  proof (cases "doc \<in> set rest")
    case True
    then show ?thesis using "2.IH" [OF dd rest] by simp
  next
    case False
    then have "doc = \<lparr>doc_id = document_id, relevance = r, doc_rating = rating dd\<rparr>"
      using "2.prems"(2) ds by simp
    then show ?thesis using dd by simp
  qed
qed

lemma consistent_indexes:
  assumes "index_consistent srv" and "map_of (documents srv) d = Some dd"
  shows "indexes srv w d \<longleftrightarrow> w \<in> set (words dd)"
proof -
  have "indexes srv w d \<longleftrightarrow> tf_lookup (word_to_document_freqs srv) w d \<noteq> None"
    by (simp add: indexes_def tf_lookup_def split: option.splits)
  also have "\<dots> \<longleftrightarrow> w \<in> set (words dd)"
    using assms by (simp add: index_consistent_def)
  finally show ?thesis .
qed

lemma consistent_contribution:
  assumes "index_consistent srv" and "map_of (documents srv) d = Some dd"
    and "w \<in> set (words dd)"
  shows "contribution srv w d =
           termFrequency (words dd) w
             * ln (real (totalDocumentCount srv) / real (docsContainingTerm srv w))"
proof -
  have tf: "tf_lookup (word_to_document_freqs srv) w d = Some (termFrequency (words dd) w)"
    using assms by (simp add: index_consistent_def)
  then obtain freqs where f: "map_of (word_to_document_freqs srv) w = Some freqs"
    and m: "map_of freqs d = Some (termFrequency (words dd) w)"
    by (auto simp: tf_lookup_def split: option.splits)
  have "length freqs = docsContainingTerm srv w"
    using assms(1) f by (rule length_postings)
  then show ?thesis
    using f m by (simp add: contribution_def GetDocumentCount_def totalDocumentCount_def)
qed

lemma sum_list_filter_cong:
  fixes f g :: "'a \<Rightarrow> real"
  assumes "\<And>x. x \<in> set xs \<Longrightarrow> P x = Q x" and "\<And>x. x \<in> set xs \<Longrightarrow> P x \<Longrightarrow> f x = g x"
  shows "(\<Sum>x \<leftarrow> filter P xs. f x) = (\<Sum>x \<leftarrow> filter Q xs. g x)"
  using assms by (induction xs) auto

text \<open>
  Claim C1. In a reachable server, for a query that parses, the relevance of every
  document that \<open>FindTopDocuments\<close> returns is \<open>spec_relevance\<close>: the sum over the
  plus words among the words of the document of the term frequency times
  \<open>ln (totalDocumentCount / docsContainingTerm)\<close>. The numbers are reals.
\<close>

theorem relevance_is_tf_idf:
  assumes "reachable srv"
    and "FindTopDocuments srv rawQuery document_predicate = Inr ds"
    and "parseQuery srv rawQuery empty_query = (True, query)"
    and "doc \<in> set ds"
  shows "\<exists>d. map_of (documents srv) (doc_id doc) = Some d \<and>
             relevance doc = spec_relevance srv query d"
proof -
  have ic: "index_consistent srv"
    using assms(1) by (rule reachable_index_consistent)
  then have postings: "\<forall>w freqs. map_of (word_to_document_freqs srv) w = Some freqs
           \<longrightarrow> sorted_wrt (<) (map fst freqs)"
    by (simp add: index_consistent_def)
  obtain found where f: "findAllDocuments srv query document_predicate = Inr found"
    and sub: "set ds \<subseteq> set found"
    using FindTopDocuments_subset [OF assms(2,3)] by blast
  from f obtain rel1 where
    p: "plus_loop srv document_predicate (plus_words query) [] = Inr rel1"
    and c: "collect_documents (documents srv) (minus_loop srv (minus_words query) rel1)
              = Inr found"
    by (auto simp: findAllDocuments_def split: sum.splits)
  have "doc \<in> set found" using assms(4) sub by blast
  then have mem: "(doc_id doc, relevance doc) \<in> set (minus_loop srv (minus_words query) rel1)"
    and known: "map_of (documents srv) (doc_id doc) \<noteq> None"
    using collect_documents_member [OF c] by simp_all
  have "sorted_wrt (<) (map fst rel1)"
    using p by (rule plus_loop_sorted) simp
  then have "sorted_wrt (<) (map fst (minus_loop srv (minus_words query) rel1))"
    by (rule minus_loop_sorted)
  then have "map_of (minus_loop srv (minus_words query) rel1) (doc_id doc) = Some (relevance doc)"
    using mem by (simp add: strict_sorted_keys_map_of)
  then have r1: "map_of rel1 (doc_id doc) = Some (relevance doc)"
    by (rule minus_loop_lookup)
  have "map_of rel1 (doc_id doc) =
     (if document_passes (documents srv) document_predicate (doc_id doc)
         \<and> (\<exists>w \<in> set (plus_words query). indexes srv w (doc_id doc))
      then Some ((case map_of [] (doc_id doc) of None \<Rightarrow> 0 | Some r \<Rightarrow> r)
                 + (\<Sum>w \<leftarrow> filter (\<lambda>w. indexes srv w (doc_id doc)) (plus_words query).
                      contribution srv w (doc_id doc)))
      else map_of [] (doc_id doc))"
    using p postings by (rule plus_loop_lookup)
  then have rel: "relevance doc =
      (\<Sum>w \<leftarrow> filter (\<lambda>w. indexes srv w (doc_id doc)) (plus_words query).
         contribution srv w (doc_id doc))"
    using r1 by (simp split: if_splits)
  from known obtain d where d: "map_of (documents srv) (doc_id doc) = Some d" by blast
  have "(\<Sum>w \<leftarrow> filter (\<lambda>w. indexes srv w (doc_id doc)) (plus_words query).
           contribution srv w (doc_id doc)) = spec_relevance srv query d"
    unfolding spec_relevance_def
    by (rule sum_list_filter_cong)
       (simp_all add: consistent_indexes [OF ic d] consistent_contribution [OF ic d])
  then show ?thesis using rel d by simp
qed

lemma three_docs_query3:
  "parseQuery three_docs ''city cat'' empty_query
     = (True, \<lparr>plus_words = [''cat'', ''city''], minus_words = []\<rparr>)"
  unfolding three_docs_eq by (simp add: query_defs tokenizer_defs)

lemma three_docs_find3:
  "FindTopDocuments three_docs ''city cat'' (\<lambda>i s r. i = 2)
     = Inr [\<lparr>doc_id = 2, relevance = 1 / 2 * ln (3 / 2) + 1 / 2 * ln 3, doc_rating = 1\<rparr>]"
  unfolding three_docs_eq by (simp add: query_defs tokenizer_defs)

text \<open>
  \<open>city cat\<close> on the server of the test, with a predicate that lets document 2 pass:
  both plus words are in the document, \<open>cat\<close> is in two of the three documents.
\<close>

theorem relevance_is_tf_idf_witness:
  "reachable three_docs \<and>
   parseQuery three_docs ''city cat'' empty_query
     = (True, \<lparr>plus_words = [''cat'', ''city''], minus_words = []\<rparr>) \<and>
   FindTopDocuments three_docs ''city cat'' (\<lambda>i s r. i = 2)
     = Inr [\<lparr>doc_id = 2, relevance = 1 / 2 * ln (3 / 2) + 1 / 2 * ln 3, doc_rating = 1\<rparr>] \<and>
   spec_relevance three_docs \<lparr>plus_words = [''cat'', ''city''], minus_words = []\<rparr>
       \<lparr>rating = 1, status = ACTUAL, words = [''cat'', ''city'']\<rparr>
     = 1 / 2 * ln (3 / 2) + 1 / 2 * ln 3"
proof -
  have d: "map_of (documents three_docs) 2
      = Some \<lparr>rating = 1, status = ACTUAL, words = [''cat'', ''city'']\<rparr>"
    by (simp add: three_docs_eq)
  have "\<exists>d. map_of (documents three_docs)
               (doc_id \<lparr>doc_id = 2, relevance = 1 / 2 * ln (3 / 2) + 1 / 2 * ln 3,
                        doc_rating = 1 :: 32 word\<rparr>) = Some d \<and>
             relevance \<lparr>doc_id = 2, relevance = 1 / 2 * ln (3 / 2) + 1 / 2 * ln 3,
                        doc_rating = 1 :: 32 word\<rparr>
               = spec_relevance three_docs
                   \<lparr>plus_words = [''cat'', ''city''], minus_words = []\<rparr> d"
    by (rule relevance_is_tf_idf [OF reachable_three_docs three_docs_find3 three_docs_query3])
       simp
  then have "spec_relevance three_docs \<lparr>plus_words = [''cat'', ''city''], minus_words = []\<rparr>
       \<lparr>rating = 1, status = ACTUAL, words = [''cat'', ''city'']\<rparr>
     = 1 / 2 * ln (3 / 2) + 1 / 2 * ln 3"
    using d by simp
  then show ?thesis
    using reachable_three_docs three_docs_query3 three_docs_find3 by simp
qed

text \<open>The same value, from the definition of \<open>spec_relevance\<close> alone.\<close>

lemma spec_relevance_three_docs:
  "spec_relevance three_docs \<lparr>plus_words = [''cat'', ''city''], minus_words = []\<rparr>
       \<lparr>rating = 1, status = ACTUAL, words = [''cat'', ''city'']\<rparr>
     = 1 / 2 * ln (3 / 2) + 1 / 2 * ln 3"
  by (simp add: spec_relevance_def termFrequency_def totalDocumentCount_def
      docsContainingTerm_def three_docs_eq)

section \<open>The order of the result\<close>

text \<open>
  The comparison that \<open>FindTopDocuments\<close> hands to \<open>std::sort\<close> is not a strict weak
  order: when two relevances differ by less than \<open>EPSILON\<close> and the document of
  lower relevance has the higher rating, it holds in both directions. The lemmas below
  build the server \<open>near_ties\<close> by \<open>AddDocument\<close> and run the query \<open>a\<close> on it.
\<close>

lemma delim_facts:
  "is_delim (CHR '' '')" "\<not> is_delim (CHR ''a'')" "\<not> is_delim (CHR ''b'')"
  by (simp_all add: is_delim_def)

lemma bs_head:
  "takeWhile (\<lambda>x. \<not> is_delim x) (concat (replicate n '' b'')) = [] \<and>
   dropWhile (\<lambda>x. \<not> is_delim x) (concat (replicate n '' b'')) = concat (replicate n '' b'')"
  by (cases n) (simp_all add: delim_facts)

lemma split_bs: "split (concat (replicate n '' b'')) = replicate n ''b''"
proof (induction n)
  case 0
  then show ?case by (simp add: split.simps)
next
  case (Suc n)
  have "split (concat (replicate (Suc n) '' b''))
          = ''b'' # split (concat (replicate n '' b''))"
    by (subst split.simps) (simp add: delim_facts bs_head)
  then show ?case by (simp add: Suc.IH)
qed

lemma split_long_doc: "split (long_doc n) = ''a'' # replicate n ''b''"
proof -
  have "split (long_doc n) = ''a'' # split (concat (replicate n '' b''))"
    unfolding long_doc_def by (subst split.simps) (simp add: delim_facts bs_head)
  then show ?thesis by (simp add: split_bs)
qed

lemma splitIntoWordsNoStop_loop_all:
  assumes "\<forall>w \<in> set tempWords. isValidWord w \<and> \<not> isStopWord srv w"
  shows "splitIntoWordsNoStop_loop srv tempWords ws = (True, ws @ tempWords)"
  using assms by (induction tempWords arbitrary: ws) simp_all

lemma map_put_twice: "map_put k x (map_put k y m) = map_put k x m"
  by (induction m) auto

lemma add_occurrence_eq:
  "add_occurrence inv_word_count documentId idx word =
     map_put word
       (map_put documentId
          ((case tf_lookup idx word documentId of None \<Rightarrow> 0 | Some x \<Rightarrow> x) + inv_word_count)
          (case map_of idx word of None \<Rightarrow> [] | Some m \<Rightarrow> m))
       idx"
  by (auto simp: add_occurrence_def tf_lookup_def Let_def map_of_map_put map_put_twice
      split: option.splits)

lemma foldl_add_occurrence_replicate:
  "foldl (add_occurrence inv_word_count documentId) idx (replicate (Suc n) word) =
     map_put word
       (map_put documentId
          ((case tf_lookup idx word documentId of None \<Rightarrow> 0 | Some x \<Rightarrow> x)
             + real (Suc n) * inv_word_count)
          (case map_of idx word of None \<Rightarrow> [] | Some m \<Rightarrow> m))
       idx"
proof (induction n)
  case 0
  then show ?case by (simp add: add_occurrence_eq)
next
  case (Suc n)
  have "foldl (add_occurrence inv_word_count documentId) idx (replicate (Suc (Suc n)) word)
        = add_occurrence inv_word_count documentId
            (foldl (add_occurrence inv_word_count documentId) idx (replicate (Suc n) word)) word"
    by (simp only: replicate_Suc [of "Suc n"] replicate_append_same [symmetric] foldl_append)
       simp
  then show ?case
    unfolding Suc.IH
    by (simp add: add_occurrence_eq [of _ _ "map_put word _ idx"] tf_lookup_def map_of_map_put
        map_put_twice algebra_simps)
qed

lemma foldl_add_occurrence_replicate_pos:
  assumes "0 < n"
  shows "foldl (add_occurrence inv_word_count documentId) idx (replicate n word) =
     map_put word
       (map_put documentId
          ((case tf_lookup idx word documentId of None \<Rightarrow> 0 | Some x \<Rightarrow> x)
             + real n * inv_word_count)
          (case map_of idx word of None \<Rightarrow> [] | Some m \<Rightarrow> m))
       idx"
proof -
  from assms obtain m where "n = Suc m" by (cases n) simp_all
  then show ?thesis by (simp only: foldl_add_occurrence_replicate)
qed

lemma near_ties_ratings:
  "computeAverageRating [2] = 2" "computeAverageRating [3] = 3" "computeAverageRating [] = 0"
  by (simp_all add: computeAverageRating_def accumulate_def int_div_def)

lemma splitIntoWordsNoStop_long_doc:
  assumes "stopWords srv = {}"
  shows "splitIntoWordsNoStop srv (long_doc n) [] = (True, ''a'' # replicate n ''b'')"
proof -
  have "\<forall>w \<in> set (''a'' # replicate n ''b''). isValidWord w \<and> \<not> isStopWord srv w"
    using assms
    by (auto simp: isValidWord_def isValidChar_def iscntrl_def isalpha_def isgraph_def
        isStopWord_def)
  then show ?thesis
    using splitIntoWordsNoStop_loop_all [of "''a'' # replicate n ''b''" srv "[]"]
    by (simp add: splitIntoWordsNoStop_def split_long_doc)
qed

lemma AddDocument_long_doc:
  assumes "stopWords srv = {}" and "0 \<le> i" and "map_of (documents srv) i = None"
  shows "snd (AddDocument srv i (long_doc n) st ratings) =
     srv\<lparr>word_to_document_freqs :=
           foldl (add_occurrence (1 / real (Suc n)) i)
             (add_occurrence (1 / real (Suc n)) i (word_to_document_freqs srv) ''a'')
             (replicate n ''b''),
         documents :=
           map_put i \<lparr>rating = computeAverageRating ratings, status = st,
                      words = ''a'' # replicate n ''b''\<rparr> (documents srv),
         document_ids := document_ids srv @ [i]\<rparr>"
  using assms
  by (simp add: AddDocument_def splitIntoWordsNoStop_long_doc map_emplace_def
      calculateTermFrequency_def map_of_map_put Let_def)

lemma near_ties_1:
  "snd (AddDocument empty_server 0 (long_doc 599) ACTUAL [1]) =
     \<lparr>word_to_document_freqs = [(''a'', [(0, 1 / 600)]), (''b'', [(0, 599 / 600)])],
      documents = [(0, \<lparr>rating = 1, status = ACTUAL, words = ''a'' # replicate 599 ''b''\<rparr>)],
      stopWords = {}, document_ids = [0]\<rparr>"
  by (simp add: AddDocument_long_doc empty_server_def foldl_add_occurrence_replicate_pos
      add_occurrence_eq tf_lookup_def computeAverageRating_1)


lemma near_ties_2:
  "snd (AddDocument
     \<lparr>word_to_document_freqs = [(''a'', [(0, 1 / 600)]), (''b'', [(0, 599 / 600)])],
      documents = [(0, \<lparr>rating = 1, status = ACTUAL, words = ''a'' # replicate 599 ''b''\<rparr>)],
      stopWords = {}, document_ids = [0]\<rparr> 1 (long_doc 600) ACTUAL [2]) =
     \<lparr>word_to_document_freqs =
        [(''a'', [(0, 1 / 600), (1, 1 / 601)]), (''b'', [(0, 599 / 600), (1, 600 / 601)])],
      documents =
        [(0, \<lparr>rating = 1, status = ACTUAL, words = ''a'' # replicate 599 ''b''\<rparr>),
         (1, \<lparr>rating = 2, status = ACTUAL, words = ''a'' # replicate 600 ''b''\<rparr>)],
      stopWords = {}, document_ids = [0, 1]\<rparr>"
  by (simp add: AddDocument_long_doc foldl_add_occurrence_replicate_pos
      add_occurrence_eq tf_lookup_def near_ties_ratings)

lemma near_ties_3:
  "snd (AddDocument
     \<lparr>word_to_document_freqs =
        [(''a'', [(0, 1 / 600), (1, 1 / 601)]), (''b'', [(0, 599 / 600), (1, 600 / 601)])],
      documents =
        [(0, \<lparr>rating = 1, status = ACTUAL, words = ''a'' # replicate 599 ''b''\<rparr>),
         (1, \<lparr>rating = 2, status = ACTUAL, words = ''a'' # replicate 600 ''b''\<rparr>)],
      stopWords = {}, document_ids = [0, 1]\<rparr> 2 (long_doc 601) ACTUAL [3]) =
     \<lparr>word_to_document_freqs =
        [(''a'', [(0, 1 / 600), (1, 1 / 601), (2, 1 / 602)]),
         (''b'', [(0, 599 / 600), (1, 600 / 601), (2, 601 / 602)])],
      documents =
        [(0, \<lparr>rating = 1, status = ACTUAL, words = ''a'' # replicate 599 ''b''\<rparr>),
         (1, \<lparr>rating = 2, status = ACTUAL, words = ''a'' # replicate 600 ''b''\<rparr>),
         (2, \<lparr>rating = 3, status = ACTUAL, words = ''a'' # replicate 601 ''b''\<rparr>)],
      stopWords = {}, document_ids = [0, 1, 2]\<rparr>"
  by (simp add: AddDocument_long_doc foldl_add_occurrence_replicate_pos
      add_occurrence_eq tf_lookup_def near_ties_ratings)

lemma near_ties_4:
  "snd (AddDocument
     \<lparr>word_to_document_freqs =
        [(''a'', [(0, 1 / 600), (1, 1 / 601), (2, 1 / 602)]),
         (''b'', [(0, 599 / 600), (1, 600 / 601), (2, 601 / 602)])],
      documents =
        [(0, \<lparr>rating = 1, status = ACTUAL, words = ''a'' # replicate 599 ''b''\<rparr>),
         (1, \<lparr>rating = 2, status = ACTUAL, words = ''a'' # replicate 600 ''b''\<rparr>),
         (2, \<lparr>rating = 3, status = ACTUAL, words = ''a'' # replicate 601 ''b''\<rparr>)],
      stopWords = {}, document_ids = [0, 1, 2]\<rparr> 3 ''c'' ACTUAL []) =
     \<lparr>word_to_document_freqs =
        [(''a'', [(0, 1 / 600), (1, 1 / 601), (2, 1 / 602)]),
         (''b'', [(0, 599 / 600), (1, 600 / 601), (2, 601 / 602)]),
         (''c'', [(3, 1)])],
      documents =
        [(0, \<lparr>rating = 1, status = ACTUAL, words = ''a'' # replicate 599 ''b''\<rparr>),
         (1, \<lparr>rating = 2, status = ACTUAL, words = ''a'' # replicate 600 ''b''\<rparr>),
         (2, \<lparr>rating = 3, status = ACTUAL, words = ''a'' # replicate 601 ''b''\<rparr>),
         (3, \<lparr>rating = 0, status = ACTUAL, words = [''c'']\<rparr>)],
      stopWords = {}, document_ids = [0, 1, 2, 3]\<rparr>"
  by (simp add: AddDocument_def splitIntoWordsNoStop_def map_emplace_def
      calculateTermFrequency_def add_occurrence_def Let_def tokenizer_defs near_ties_ratings)

lemma near_ties_eq:
  "near_ties =
     \<lparr>word_to_document_freqs =
        [(''a'', [(0, 1 / 600), (1, 1 / 601), (2, 1 / 602)]),
         (''b'', [(0, 599 / 600), (1, 600 / 601), (2, 601 / 602)]),
         (''c'', [(3, 1)])],
      documents =
        [(0, \<lparr>rating = 1, status = ACTUAL, words = ''a'' # replicate 599 ''b''\<rparr>),
         (1, \<lparr>rating = 2, status = ACTUAL, words = ''a'' # replicate 600 ''b''\<rparr>),
         (2, \<lparr>rating = 3, status = ACTUAL, words = ''a'' # replicate 601 ''b''\<rparr>),
         (3, \<lparr>rating = 0, status = ACTUAL, words = [''c'']\<rparr>)],
      stopWords = {}, document_ids = [0, 1, 2, 3]\<rparr>"
  unfolding near_ties_def near_ties_1 near_ties_2 near_ties_3 near_ties_4 ..

lemma ln_4_3_bounds: "1 / 4 \<le> ln (4 / 3 :: real)" "ln (4 / 3 :: real) \<le> 1 / 3"
proof -
  have "ln (3 / 4 :: real) \<le> 3 / 4 - 1" by (rule ln_le_minus_one) simp
  moreover have "ln (3 / 4 :: real) = - ln (4 / 3)" by (simp add: ln_div)
  ultimately show "1 / 4 \<le> ln (4 / 3 :: real)" by simp
  have "ln (4 / 3 :: real) \<le> 4 / 3 - 1" by (rule ln_le_minus_one) simp
  then show "ln (4 / 3 :: real) \<le> 1 / 3" by simp
qed

lemma near_ties_query:
  "parseQuery near_ties ''a'' empty_query = (True, \<lparr>plus_words = [''a''], minus_words = []\<rparr>)"
  unfolding near_ties_eq by (simp add: query_defs tokenizer_defs)

lemma near_ties_found:
  "findAllDocuments near_ties \<lparr>plus_words = [''a''], minus_words = []\<rparr> (\<lambda>i s r. s = ACTUAL) =
     Inr [\<lparr>doc_id = 0, relevance = ln (4 / 3) / 600, doc_rating = 1\<rparr>,
          \<lparr>doc_id = 1, relevance = ln (4 / 3) / 601, doc_rating = 2\<rparr>,
          \<lparr>doc_id = 2, relevance = ln (4 / 3) / 602, doc_rating = 3\<rparr>]"
  unfolding near_ties_eq
  by (simp add: findAllDocuments_def computeWordInverseDocumentFreq_def GetDocumentCount_def)

lemma near_ties_order:
  "relevance_order \<lparr>doc_id = 1, relevance = ln (4 / 3) / 601, doc_rating = 2\<rparr>
                   \<lparr>doc_id = 0, relevance = ln (4 / 3) / 600, doc_rating = 1\<rparr>"
  "relevance_order \<lparr>doc_id = 2, relevance = ln (4 / 3) / 602, doc_rating = 3\<rparr>
                   \<lparr>doc_id = 1, relevance = ln (4 / 3) / 601, doc_rating = 2\<rparr>"
  using ln_4_3_bounds by (simp_all add: relevance_order_def EPSILON_def abs_if)

lemma near_ties_sorted:
  "std_sort relevance_order
     [\<lparr>doc_id = 0, relevance = ln (4 / 3) / 600, doc_rating = 1\<rparr>,
      \<lparr>doc_id = 1, relevance = ln (4 / 3) / 601, doc_rating = 2\<rparr>,
      \<lparr>doc_id = 2, relevance = ln (4 / 3) / 602, doc_rating = 3\<rparr>] =
     [\<lparr>doc_id = 2, relevance = ln (4 / 3) / 602, doc_rating = 3\<rparr>,
      \<lparr>doc_id = 1, relevance = ln (4 / 3) / 601, doc_rating = 2\<rparr>,
      \<lparr>doc_id = 0, relevance = ln (4 / 3) / 600, doc_rating = 1\<rparr>]"
  by (simp only: std_sort_def foldl.simps insertion_step_def list.case near_ties_order if_True)

text \<open>
  Claim C3 at \<open>near_ties\<close>. The three matching documents come back in ascending
  relevance: each step of the sort moves the next document to the front, since it is
  within \<open>EPSILON\<close> of the first one and has the higher rating. The first and the last
  entry violate the claim: the first has the lower relevance, and the two relevances
  differ by more than \<open>EPSILON\<close>.
\<close>

theorem near_ties_order_violation:
  "FindTopDocuments_actual near_ties ''a'' =
     Inr [\<lparr>doc_id = 2, relevance = ln (4 / 3) / 602, doc_rating = 3\<rparr>,
          \<lparr>doc_id = 1, relevance = ln (4 / 3) / 601, doc_rating = 2\<rparr>,
          \<lparr>doc_id = 0, relevance = ln (4 / 3) / 600, doc_rating = 1\<rparr>] \<and>
   \<not> claimed_order \<lparr>doc_id = 2, relevance = ln (4 / 3) / 602, doc_rating = 3\<rparr>
                    \<lparr>doc_id = 0, relevance = ln (4 / 3) / 600, doc_rating = 1\<rparr>"
proof -
  have a: "FindTopDocuments_actual near_ties ''a'' =
     Inr [\<lparr>doc_id = 2, relevance = ln (4 / 3) / 602, doc_rating = 3\<rparr>,
          \<lparr>doc_id = 1, relevance = ln (4 / 3) / 601, doc_rating = 2\<rparr>,
          \<lparr>doc_id = 0, relevance = ln (4 / 3) / 600, doc_rating = 1\<rparr>]"
    by (simp add: FindTopDocuments_actual_def FindTopDocuments_status_def FindTopDocuments_def
        near_ties_query near_ties_found near_ties_sorted MAX_RESULT_DOCUMENT_COUNT_def)
  have b: "\<not> (ln (4 / 3) / 602 > ln (4 / 3 :: real) / 600)"
    using ln_4_3_bounds by simp
  have c: "\<not> \<bar>ln (4 / 3) / 602 - ln (4 / 3 :: real) / 600\<bar> < 1 / 1000000"
    using ln_4_3_bounds by (simp add: abs_if)
  have "\<not> claimed_order \<lparr>doc_id = 2, relevance = ln (4 / 3) / 602, doc_rating = 3\<rparr>
                    \<lparr>doc_id = 0, relevance = ln (4 / 3) / 600, doc_rating = 1\<rparr>"
    using b c by (simp add: claimed_order_def EPSILON_def)
  then show ?thesis using a by blast
qed

subsection \<open>Without near ties\<close>

text \<open>
  On a list without near ties the comparison is the lexicographic order of relevance
  and rating, the insertion sort sorts, and the order of the specification holds of the
  result of \<open>FindTopDocuments\<close>.
\<close>

lemma unguarded_linear_insert_sorted:
  assumes asym: "\<And>a b. a \<in> S \<Longrightarrow> b \<in> S \<Longrightarrow> cmp a b \<Longrightarrow> \<not> cmp b a"
    and negtrans: "\<And>a b c. a \<in> S \<Longrightarrow> b \<in> S \<Longrightarrow> c \<in> S \<Longrightarrow>
                     \<not> cmp a b \<Longrightarrow> \<not> cmp b c \<Longrightarrow> \<not> cmp a c"
    and "val \<in> S" and "set rp \<subseteq> S"
    and "sorted_wrt (\<lambda>a b. \<not> cmp a b) rp"
  shows "sorted_wrt (\<lambda>a b. \<not> cmp a b) (unguarded_linear_insert cmp val rp)"
  using assms(4,5)
proof (induction rp)
  case Nil
  then show ?case by simp
next
  case (Cons x rp)
  have xS: "x \<in> S" and rpS: "set rp \<subseteq> S" using Cons.prems(1) by simp_all
  have sx: "\<forall>y \<in> set rp. \<not> cmp x y" and srp: "sorted_wrt (\<lambda>a b. \<not> cmp a b) rp"
    using Cons.prems(2) by simp_all
  show ?case
  proof (cases "cmp val x")
    case True
    have "\<not> cmp x val" using asym [OF assms(3) xS True] .
    then have "\<forall>z \<in> set (unguarded_linear_insert cmp val rp). \<not> cmp x z"
      using sx by (simp add: set_unguarded_linear_insert)
    then show ?thesis using True Cons.IH [OF rpS srp] by simp
  next
    case False
    have "\<forall>y \<in> set rp. \<not> cmp val y"
      using negtrans [OF assms(3) xS _ False] sx rpS by blast
    then show ?thesis using False Cons.prems(2) by simp
  qed
qed

lemma insertion_step_sorted:
  assumes asym: "\<And>a b. a \<in> S \<Longrightarrow> b \<in> S \<Longrightarrow> cmp a b \<Longrightarrow> \<not> cmp b a"
    and negtrans: "\<And>a b c. a \<in> S \<Longrightarrow> b \<in> S \<Longrightarrow> c \<in> S \<Longrightarrow>
                     \<not> cmp a b \<Longrightarrow> \<not> cmp b c \<Longrightarrow> \<not> cmp a c"
    and "val \<in> S" and "set prefix \<subseteq> S"
    and "sorted_wrt (\<lambda>a b. \<not> cmp b a) prefix"
  shows "sorted_wrt (\<lambda>a b. \<not> cmp b a) (insertion_step cmp prefix val)"
proof (cases prefix)
  case Nil
  then show ?thesis by (simp add: insertion_step_def)
next
  case (Cons first rest)
  have fS: "first \<in> S" and rS: "set rest \<subseteq> S" using assms(4) Cons by simp_all
  show ?thesis
  proof (cases "cmp val first")
    case True
    have nf: "\<not> cmp first val" using asym [OF assms(3) fS True] .
    have "\<not> cmp y val" if "y \<in> set rest" for y
    proof -
      have "y \<in> S" using that rS by blast
      moreover have "\<not> cmp y first" using assms(5) Cons that by simp
      ultimately show ?thesis using negtrans [OF _ fS assms(3) _ nf] by blast
    qed
    then show ?thesis using True Cons nf assms(5) by (simp add: insertion_step_def)
  next
    case False
    have "sorted_wrt (\<lambda>a b. \<not> cmp a b) (rev prefix)"
      using assms(5) by (simp add: sorted_wrt_rev)
    then have "sorted_wrt (\<lambda>a b. \<not> cmp a b) (unguarded_linear_insert cmp val (rev prefix))"
      using assms(4) by (intro unguarded_linear_insert_sorted [OF asym negtrans assms(3)]) simp_all
    then have "sorted_wrt (\<lambda>a b. \<not> cmp b a) (rev (unguarded_linear_insert cmp val (rev prefix)))"
      by (simp add: sorted_wrt_rev)
    then show ?thesis using False Cons by (simp add: insertion_step_def)
  qed
qed

lemma foldl_insertion_step_sorted:
  assumes asym: "\<And>a b. a \<in> S \<Longrightarrow> b \<in> S \<Longrightarrow> cmp a b \<Longrightarrow> \<not> cmp b a"
    and negtrans: "\<And>a b c. a \<in> S \<Longrightarrow> b \<in> S \<Longrightarrow> c \<in> S \<Longrightarrow>
                     \<not> cmp a b \<Longrightarrow> \<not> cmp b c \<Longrightarrow> \<not> cmp a c"
    and "set xs \<subseteq> S" and "set acc \<subseteq> S"
    and "sorted_wrt (\<lambda>a b. \<not> cmp b a) acc"
  shows "sorted_wrt (\<lambda>a b. \<not> cmp b a) (foldl (insertion_step cmp) acc xs)"
  using assms(3,4,5)
proof (induction xs arbitrary: acc)
  case Nil
  then show ?case by simp
next
  case (Cons x xs)
  have "sorted_wrt (\<lambda>a b. \<not> cmp b a) (insertion_step cmp acc x)"
    using Cons.prems by (intro insertion_step_sorted [OF asym negtrans]) simp_all
  moreover have "set (insertion_step cmp acc x) \<subseteq> S"
    using Cons.prems by (simp add: set_insertion_step)
  ultimately show ?case using Cons.IH Cons.prems(1) by simp
qed

lemma relevance_order_without_near_ties:
  assumes "no_near_ties ds" and "a \<in> set ds" and "b \<in> set ds"
  shows "relevance_order a b \<longleftrightarrow>
           relevance a > relevance b \<or>
           (relevance a = relevance b \<and> sint (doc_rating a) > sint (doc_rating b))"
proof -
  define ra rb where "ra = relevance a" and "rb = relevance b"
  have "ra = rb \<or> 1 / 1000000 \<le> \<bar>ra - rb\<bar>"
    using assms by (simp add: no_near_ties_def EPSILON_def ra_def rb_def)
  then have "(ra > rb \<or> \<bar>ra - rb\<bar> < 1 / 1000000 \<and> P) \<longleftrightarrow> (ra > rb \<or> ra = rb \<and> P)" for P
    by (cases "ra = rb") auto
  then show ?thesis
    by (simp add: relevance_order_def EPSILON_def ra_def rb_def)
qed

lemma lex_order_facts:
  fixes ra rb rc :: real and qa qb qc :: int
  shows "ra > rb \<or> ra = rb \<and> qa > qb \<Longrightarrow> \<not> (rb > ra \<or> rb = ra \<and> qb > qa)"
    and "\<not> (ra > rb \<or> ra = rb \<and> qa > qb) \<Longrightarrow> \<not> (rb > rc \<or> rb = rc \<and> qb > qc)
         \<Longrightarrow> \<not> (ra > rc \<or> ra = rc \<and> qa > qc)"
  by auto

lemma std_sort_without_near_ties:
  assumes "no_near_ties found"
  shows "sorted_wrt claimed_order (std_sort relevance_order found)"
proof -
  have asym: "\<not> relevance_order b a"
    if "a \<in> set found" "b \<in> set found" "relevance_order a b" for a b
    using that(3) lex_order_facts(1)
    unfolding relevance_order_without_near_ties [OF assms that(1,2)]
      relevance_order_without_near_ties [OF assms that(2,1)]
    by blast
  have negtrans: "\<not> relevance_order a c"
    if "a \<in> set found" "b \<in> set found" "c \<in> set found"
      "\<not> relevance_order a b" "\<not> relevance_order b c" for a b c
    using that(4,5) lex_order_facts(2)
    unfolding relevance_order_without_near_ties [OF assms that(1,2)]
      relevance_order_without_near_ties [OF assms that(2,3)]
      relevance_order_without_near_ties [OF assms that(1,3)]
    by blast
  have "sorted_wrt (\<lambda>a b. \<not> relevance_order b a) (foldl (insertion_step relevance_order) [] found)"
  proof (rule foldl_insertion_step_sorted [where S = "set found"])
    show "\<And>a b. a \<in> set found \<Longrightarrow> b \<in> set found \<Longrightarrow> relevance_order a b
            \<Longrightarrow> \<not> relevance_order b a"
      by (rule asym)
    show "\<And>a b c. a \<in> set found \<Longrightarrow> b \<in> set found \<Longrightarrow> c \<in> set found
            \<Longrightarrow> \<not> relevance_order a b \<Longrightarrow> \<not> relevance_order b c \<Longrightarrow> \<not> relevance_order a c"
      by (rule negtrans)
    show "set found \<subseteq> set found" by simp
    show "set [] \<subseteq> set found" by simp
    show "sorted_wrt (\<lambda>a b. \<not> relevance_order b a) []" by simp
  qed
  then have s: "sorted_wrt (\<lambda>a b. \<not> relevance_order b a) (std_sort relevance_order found)"
    by (simp add: std_sort_def)
  have "claimed_order a b" if "\<not> relevance_order b a" for a b
  proof -
    define ra rb where "ra = relevance a" and "rb = relevance b"
    have "\<not> rb > ra" and "\<bar>rb - ra\<bar> < 1 / 1000000 \<Longrightarrow> \<not> sint (doc_rating b) > sint (doc_rating a)"
      using that by (simp_all add: relevance_order_def EPSILON_def ra_def rb_def)
    then have "ra > rb \<or> (\<bar>ra - rb\<bar> < 1 / 1000000 \<and> sint (doc_rating a) \<ge> sint (doc_rating b))"
      by (cases "ra = rb") auto
    then show ?thesis by (simp add: claimed_order_def EPSILON_def ra_def rb_def)
  qed
  then have "\<And>a b. a \<in> set (std_sort relevance_order found)
      \<Longrightarrow> b \<in> set (std_sort relevance_order found)
      \<Longrightarrow> \<not> relevance_order b a \<Longrightarrow> claimed_order a b"
    by blast
  then show ?thesis
    using s by (rule sorted_wrt_mono_rel)
qed

lemma FindTopDocuments_ordered_without_near_ties:
  assumes "FindTopDocuments srv rawQuery document_predicate = Inr ds"
    and "parseQuery srv rawQuery empty_query = (True, query)"
    and "findAllDocuments srv query document_predicate = Inr found"
    and "no_near_ties found"
  shows "sorted_wrt claimed_order ds"
proof -
  have "ds = (let m = std_sort relevance_order found
              in if length m > MAX_RESULT_DOCUMENT_COUNT then take MAX_RESULT_DOCUMENT_COUNT m else m)"
    using assms(1,2,3) by (simp add: FindTopDocuments_def Let_def)
  then show ?thesis
    using std_sort_without_near_ties [OF assms(4)]
    by (auto simp: Let_def)
qed

end
